theory Spec2Isabelle
  imports Main "HOL-Library.Word"
begin

section \<open>A2Vstation: the A-Station to V-Station system exclusive converter\<close>

text \<open>
  A shallow embedding of \<^verbatim>\<open>main\<close> of \<^verbatim>\<open>A2Vstation.c\<close>, from the allocation of the
  message buffer (line 98) to the final \<^verbatim>\<open>return\<close> (line 211); the check of the
  arguments and the opening of the two files (lines 70 to 95) come before it. The input
  file is the list of its bytes; \<^verbatim>\<open>fread\<close> of one byte takes the head of the list and
  the loop ends when the list is empty. The output file is the list of the bytes handed
  to \<^verbatim>\<open>fwrite\<close> so far.
\<close>

subsection \<open>Constants (lines 36 to 49)\<close>

type_synonym u8 = "8 word"

definition SOX :: u8 where "SOX = 0xF0"
definition NOVID1 :: u8 where "NOVID1 = 0x00"
definition NOVID2 :: u8 where "NOVID2 = 0x20"
definition NOVID3 :: u8 where "NOVID3 = 0x29"
definition DEVTYP :: u8 where "DEVTYP = 0x01"
definition ASTNID :: u8 where "ASTNID = 0x40"
definition KSTNID :: u8 where "KSTNID = 0x41"
definition MSGTYP_CUR :: u8 where "MSGTYP_CUR = 0x00"
definition MSGTYP_PRG :: u8 where "MSGTYP_PRG = 0x01"
definition MSGTYP_PAI :: u8 where "MSGTYP_PAI = 0x02"
definition EOX :: u8 where "EOX = 0xF7"
definition SIZE_PROGRAM_DATA :: nat where "SIZE_PROGRAM_DATA = 128"
definition OFFSET_PROGRAM :: nat where "OFFSET_PROGRAM = 13"
definition SIZE_SYSEX_BUF :: nat where
  "SIZE_SYSEX_BUF = SIZE_PROGRAM_DATA * 2 + OFFSET_PROGRAM + 1"

subsection \<open>State and failures\<close>

text \<open>
  Every \<^verbatim>\<open>return\<close> with \<^verbatim>\<open>EXIT_FAILURE\<close> inside the loop is one constructor, carrying
  what its message prints:
  \<^item> \<open>NotASysexFile\<close>: line 107, "is not *.syx file";
  \<^item> \<open>UnknownVendorId k b\<close>: lines 125, 130, 135, "Unknown data (b), it should be
    NOVIDk", for the byte \<open>b\<close> found at offset \<open>k\<close>;
  \<^item> \<open>UnknownDeviceType b\<close>: line 142, "Unknown data (b), it should be 01";
  \<^item> \<open>AlreadyTargetFormat\<close>: line 149, "The input data is V-Station/K-Station dump";
  \<^item> \<open>UnknownDeviceId b\<close>: line 154, "Unknown data (b), it should be 40";
  \<^item> \<open>WriteError\<close>: line 192, "File write error".

  \<open>OutOfBounds\<close> is not a return of the program: it marks an access outside the
  \<open>SIZE_SYSEX_BUF\<close> bytes of the buffer, where the behaviour of the C program is undefined
  (a store through \<^verbatim>\<open>bufAddr\<close> at line 103, a load of \<^verbatim>\<open>sysExclMsg+i\<close> at line 191).
\<close>

datatype error =
    NotASysexFile
  | UnknownVendorId nat u8
  | UnknownDeviceType u8
  | AlreadyTargetFormat
  | UnknownDeviceId u8
  | WriteError
  | OutOfBounds

text \<open>
  The variables of \<^verbatim>\<open>main\<close> that the loop changes. \<open>bufAddr\<close> is kept as the offset
  \<^verbatim>\<open>bufAddr - sysExclMsg\<close>; \<open>ofp\<close> is the content written to the output file and
  \<open>stdout\<close> the text printed on the standard output. \<open>counter\<close> is a C \<^verbatim>\<open>int\<close>; it is an
  unbounded integer here, since it never exceeds twice the size of the buffer
  (lemma \<open>counter_small\<close>) and so never wraps.
\<close>

record state =
  sysExclMsg :: "u8 list"
  bufAddr :: nat
  counter :: int
  ofp :: "u8 list"
  stdout :: string

text \<open>
  \<^verbatim>\<open>malloc\<close> (line 98) gives \<open>SIZE_SYSEX_BUF\<close> bytes of indeterminate content: the
  function \<open>junk\<close> says what each of them holds.
\<close>

definition init :: "(nat \<Rightarrow> u8) \<Rightarrow> state" where
  "init junk =
     \<lparr>sysExclMsg = map junk [0..<SIZE_SYSEX_BUF], bufAddr = 0, counter = - 1,
      ofp = [], stdout = []\<rparr>"

subsection \<open>Header verification (lines 123 to 157)\<close>

definition verify :: "u8 list \<Rightarrow> error option" where
  "verify m =
     (if m ! 1 \<noteq> NOVID1 then Some (UnknownVendorId 1 (m ! 1))
      else if m ! 2 \<noteq> NOVID2 then Some (UnknownVendorId 2 (m ! 2))
      else if m ! 3 \<noteq> NOVID3 then Some (UnknownVendorId 3 (m ! 3))
      else if m ! 4 \<noteq> DEVTYP then Some (UnknownDeviceType (m ! 4))
      else if m ! 5 = KSTNID then Some AlreadyTargetFormat
      else if m ! 5 \<noteq> ASTNID then Some (UnknownDeviceId (m ! 5))
      else None)"

subsection \<open>Message type report (lines 163 to 187)\<close>

text \<open>\<^verbatim>\<open>%d\<close> of a non-negative \<^verbatim>\<open>int\<close>: its decimal digits, no padding.\<close>

fun dec :: "nat \<Rightarrow> string" where
  "dec n = (if n < 10 then [''0123456789'' ! n]
            else dec (n div 10) @ [''0123456789'' ! (n mod 10)])"

declare dec.simps [simp del]

definition newline :: string where
  "newline = [CHR 0x0A]"

text \<open>
  The bytes are promoted to \<^verbatim>\<open>int\<close> before \<^verbatim>\<open>+1\<close> (lines 179 and 182), so the second
  program number of a pair does not wrap at 255.
\<close>

definition info :: "u8 list \<Rightarrow> string" where
  "info m =
     (if m ! 7 = MSGTYP_CUR then
        ''[INFO] Current sound (edit buffer) dump'' @ newline
      else if m ! 7 = MSGTYP_PRG then
        (if m ! 8 = 0 then
           ''[INFO] Current selected bank, PROGRAM NUMBER='' @ dec (unat (m ! 12)) @ newline
         else if m ! 8 = 1 then
           ''[INFO] PROGRAM BANK='' @ dec (unat (m ! 11)) @ '', PROGRAM NUMBER=''
             @ dec (unat (m ! 12)) @ newline
         else [])
      else if m ! 7 = MSGTYP_PAI then
        (if m ! 8 = 0 then
           ''[INFO] PROGRAM BANK='' @ dec (unat (m ! 11)) @ '', PROGRAM NUMBER=''
             @ dec (unat (m ! 12)) @ '' and '' @ dec (unat (m ! 12) + 1) @ newline
         else if m ! 8 = 1 then
           ''[INFO] PROGRAM BANK='' @ dec (unat (m ! 11)) @ '', PROGRAM NUMBER=''
             @ dec (unat (m ! 12)) @ '' and '' @ dec (unat (m ! 12) + 1) @ newline
         else [])
      else [])"

subsection \<open>Messages on the standard error\<close>




subsection \<open>Writing the message (lines 189 to 196)\<close>

text \<open>
  \<open>wok k\<close> says whether the \<^verbatim>\<open>fwrite\<close> issued when \<open>k\<close> bytes have been written
  returns 1. The loop runs \<open>i\<close> from 0 to \<open>counter\<close> inclusive.
\<close>

function write_loop :: "(nat \<Rightarrow> bool) \<Rightarrow> state \<Rightarrow> int \<Rightarrow> (error \<times> state) + state" where
  "write_loop wok s i =
     (if i \<le> counter s then
        (if SIZE_SYSEX_BUF \<le> nat i then Inl (OutOfBounds, s)
         else if \<not> wok (length (ofp s)) then Inl (WriteError, s)
         else write_loop wok (s\<lparr>ofp := ofp s @ [sysExclMsg s ! nat i]\<rparr>) (i + 1))
      else Inr s)"
  by pat_completeness auto
termination
  by (relation "measure (\<lambda>(wok, s, i). nat (counter s + 1 - i))") auto

declare write_loop.simps [simp del]

subsection \<open>Processing at EOX (lines 122 to 199)\<close>

definition process_eox :: "(nat \<Rightarrow> bool) \<Rightarrow> state \<Rightarrow> (error \<times> state) + state" where
  "process_eox wok s =
     (case verify (sysExclMsg s) of
        Some e \<Rightarrow> Inl (e, s)
      | None \<Rightarrow>
          (let s1 = s\<lparr>sysExclMsg := (sysExclMsg s)[5 := KSTNID]\<rparr>;
               s2 = s1\<lparr>stdout := stdout s1 @ info (sysExclMsg s1)\<rparr>
           in case write_loop wok s2 0 of
                Inl r \<Rightarrow> Inl r
              | Inr s3 \<Rightarrow> Inr (s3\<lparr>bufAddr := 0\<rparr>)))"

subsection \<open>The read loop (lines 102 to 203)\<close>

text \<open>
  One iteration of the \<^verbatim>\<open>while\<close> loop, for the byte
  \<open>b\<close> that \<^verbatim>\<open>fread\<close> delivers.
\<close>

definition loop_body :: "(nat \<Rightarrow> bool) \<Rightarrow> state \<Rightarrow> u8 \<Rightarrow> (error \<times> state) + state" where
  "loop_body wok s b =
     (if SIZE_SYSEX_BUF \<le> bufAddr s then Inl (OutOfBounds, s)
      else
        let s1 = s\<lparr>sysExclMsg := (sysExclMsg s)[bufAddr s := b]\<rparr> in
        if counter s1 = - 1 \<and> b \<noteq> SOX then Inl (NotASysexFile, s1)
        else
          let s2 = s1\<lparr>counter := (if b = SOX then 0 else counter s1 + 1)\<rparr> in
          if b = EOX then process_eox wok s2
          else Inr (s2\<lparr>bufAddr := bufAddr s2 + 1\<rparr>))"

fun read_loop :: "(nat \<Rightarrow> bool) \<Rightarrow> state \<Rightarrow> u8 list \<Rightarrow> (error \<times> state) + state" where
  "read_loop wok s [] = Inr s"
| "read_loop wok s (b # bs) =
     (case loop_body wok s b of
        Inl r \<Rightarrow> Inl r
      | Inr s' \<Rightarrow> read_loop wok s' bs)"

text \<open>
  The whole conversion: \<open>Inr s\<close> is the return of \<^verbatim>\<open>EXIT_SUCCESS\<close> at line 211 and
  \<open>Inl (e, s)\<close> a failure \<open>e\<close>; in both, \<open>ofp s\<close> is what the output file holds.
\<close>

definition transcode :: "(nat \<Rightarrow> bool) \<Rightarrow> (nat \<Rightarrow> u8) \<Rightarrow> u8 list \<Rightarrow> (error \<times> state) + state" where
  "transcode wok junk input = read_loop wok (init junk) input"

subsection \<open>Observing a run\<close>

text \<open>
  What a run leaves behind: the failure it ended with (\<open>None\<close> for the return of
  \<^verbatim>\<open>EXIT_SUCCESS\<close>), the content of the output file and the text on the standard output.
\<close>

definition failure :: "(error \<times> state) + state \<Rightarrow> error option" where
  "failure r = (case r of Inl (e, s) \<Rightarrow> Some e | Inr s \<Rightarrow> None)"

definition written :: "(error \<times> state) + state \<Rightarrow> u8 list" where
  "written r = (case r of Inl (e, s) \<Rightarrow> ofp s | Inr s \<Rightarrow> ofp s)"

definition printed :: "(error \<times> state) + state \<Rightarrow> string" where
  "printed r = (case r of Inl (e, s) \<Rightarrow> stdout s | Inr s \<Rightarrow> stdout s)"

text \<open>An output file on which every write succeeds, and a buffer that starts zeroed.\<close>

definition always_ok :: "nat \<Rightarrow> bool" where
  "always_ok k = True"

definition zeroed :: "nat \<Rightarrow> u8" where
  "zeroed i = 0"

section \<open>Frames\<close>

text \<open>
  The vocabulary of the specification. A frame is a start marker, a body that holds
  neither marker, and an end marker. A source-format frame is a frame that fits the
  buffer and carries the Novation identifier, the device type and the A-Station
  identifier at offsets 1 to 5. Patching a frame puts the V-Station identifier at
  offset 5.
\<close>

fun is_frame :: "u8 list \<Rightarrow> bool" where
  "is_frame [] = False"
| "is_frame (b # bs) =
     (b = SOX \<and> bs \<noteq> [] \<and> last bs = EOX \<and> SOX \<notin> set bs \<and> EOX \<notin> set (butlast bs))"

definition source_frame :: "u8 list \<Rightarrow> bool" where
  "source_frame f =
     (is_frame f \<and> length f \<le> SIZE_SYSEX_BUF \<and>
      take 5 (tl f) = [NOVID1, NOVID2, NOVID3, DEVTYP, ASTNID])"

definition patch :: "u8 list \<Rightarrow> u8 list" where
  "patch f = f[5 := KSTNID]"

text \<open>
  Two example frames: a program dump in bank-select mode 1 for bank 3, program 7, with two
  bytes of data, and a program pair dump in mode 0 with bank byte 2, program 10, with one
  byte of data.
\<close>

definition program_dump :: "u8 list" where
  "program_dump =
     [0xF0, 0x00, 0x20, 0x29, 0x01, 0x40, 0x7F, 0x01, 0x01, 0x00, 0x00, 0x03, 0x07, 0x11, 0x22, 0xF7]"

definition pair_dump :: "u8 list" where
  "pair_dump =
     [0xF0, 0x00, 0x20, 0x29, 0x01, 0x40, 0x7F, 0x02, 0x00, 0x00, 0x00, 0x02, 0x0A, 0x33, 0xF7]"

text \<open>
  \<open>header_case f r\<close>: \<open>r\<close> is the verdict of the header checks on the frame \<open>f\<close>, taken
  in the order vendor identifier (offsets 1, 2, 3), device type (offset 4), device
  identifier (offset 5). A failure at one offset says that every earlier offset held
  its expected byte; every offset named is inside the frame.
\<close>

definition header_case :: "u8 list \<Rightarrow> error option \<Rightarrow> bool" where
  "header_case f r \<longleftrightarrow>
     r = None \<and> take 5 (tl f) = [NOVID1, NOVID2, NOVID3, DEVTYP, ASTNID]
   \<or> r = Some (UnknownVendorId 1 (f ! 1)) \<and> 1 < length f \<and> f ! 1 \<noteq> NOVID1
   \<or> r = Some (UnknownVendorId 2 (f ! 2)) \<and> 2 < length f \<and> f ! 1 = NOVID1 \<and> f ! 2 \<noteq> NOVID2
   \<or> r = Some (UnknownVendorId 3 (f ! 3)) \<and> 3 < length f \<and> f ! 1 = NOVID1 \<and> f ! 2 = NOVID2
        \<and> f ! 3 \<noteq> NOVID3
   \<or> r = Some (UnknownDeviceType (f ! 4)) \<and> 4 < length f \<and> f ! 1 = NOVID1 \<and> f ! 2 = NOVID2
        \<and> f ! 3 = NOVID3 \<and> f ! 4 \<noteq> DEVTYP
   \<or> r = Some AlreadyTargetFormat \<and> 5 < length f \<and> f ! 1 = NOVID1 \<and> f ! 2 = NOVID2
        \<and> f ! 3 = NOVID3 \<and> f ! 4 = DEVTYP \<and> f ! 5 = KSTNID
   \<or> r = Some (UnknownDeviceId (f ! 5)) \<and> 5 < length f \<and> f ! 1 = NOVID1 \<and> f ! 2 = NOVID2
        \<and> f ! 3 = NOVID3 \<and> f ! 4 = DEVTYP \<and> f ! 5 \<noteq> KSTNID \<and> f ! 5 \<noteq> ASTNID"

section \<open>Auxiliary notions for the proofs\<close>

text \<open>The buffer after the bytes \<open>bs\<close> have been stored from offset \<open>p\<close> on.\<close>

fun store :: "u8 list \<Rightarrow> nat \<Rightarrow> u8 list \<Rightarrow> u8 list" where
  "store m p [] = m"
| "store m p (b # bs) = store (m[p := b]) (Suc p) bs"

text \<open>The counter after the bytes \<open>xs\<close> (lines 114 to 119, byte after byte).\<close>

definition count_from :: "int \<Rightarrow> u8 list \<Rightarrow> int" where
  "count_from c xs = foldl (\<lambda>c b. if b = SOX then 0 else c + 1) c xs"

text \<open>Between two messages: the next byte goes to the start of the buffer.\<close>

definition ready :: "state \<Rightarrow> bool" where
  "ready s \<longleftrightarrow> bufAddr s = 0 \<and> length (sysExclMsg s) = SIZE_SYSEX_BUF"

text \<open>The state a source-format frame \<open>f\<close> leaves, read from a ready state.\<close>

definition after_frame :: "state \<Rightarrow> u8 list \<Rightarrow> state" where
  "after_frame s f =
     s\<lparr>sysExclMsg := (f @ drop (length f) (sysExclMsg s))[5 := KSTNID],
        counter := int (length f) - 1,
        bufAddr := 0,
        ofp := ofp s @ patch f,
        stdout := stdout s @ info ((f @ drop (length f) (sysExclMsg s))[5 := KSTNID])\<rparr>"

text \<open>The range the counter and the buffer address stay in.\<close>

definition in_range :: "state \<Rightarrow> bool" where
  "in_range s \<longleftrightarrow>
     - 1 \<le> counter s \<and> counter s < int (bufAddr s) + int SIZE_SYSEX_BUF \<and>
     bufAddr s \<le> SIZE_SYSEX_BUF"

section \<open>Lemmas\<close>

subsection \<open>Constants\<close>

lemmas consts_defs =
  SOX_def NOVID1_def NOVID2_def NOVID3_def DEVTYP_def ASTNID_def KSTNID_def
  MSGTYP_CUR_def MSGTYP_PRG_def MSGTYP_PAI_def EOX_def

subsection \<open>The buffer and the counter\<close>

text \<open>
  Storing bytes one after the other is a splice of the buffer; the counter restarts at
  every start marker.
\<close>

lemma length_store [simp]: "length (store m p bs) = length m"
  by (induction bs arbitrary: m p) auto

lemma store_eq:
  "p + length bs \<le> length m \<Longrightarrow> store m p bs = take p m @ bs @ drop (p + length bs) m"
proof (induction bs arbitrary: m p)
  case Nil
  then show ?case by simp
next
  case (Cons b bs)
  then show ?case
    by (simp add: take_Suc_conv_app_nth upd_conv_take_nth_drop add.commute)
qed

lemma store_snoc: "store m p (xs @ [b]) = (store m p xs)[p + length xs := b]"
  by (induction xs arbitrary: m p) auto

lemma count_from_simps [simp]:
  "count_from c [] = c"
  "count_from c (b # bs) = count_from (if b = SOX then 0 else c + 1) bs"
  by (simp_all add: count_from_def)

lemma count_from_nonneg: "0 \<le> c \<Longrightarrow> 0 \<le> count_from c xs"
  by (induction xs arbitrary: c) auto

lemma count_from_plain: "SOX \<notin> set xs \<Longrightarrow> count_from c xs = c + int (length xs)"
  by (induction xs arbitrary: c) auto

subsection \<open>The write loop\<close>

text \<open>
  When every write succeeds and the counter is inside the buffer, the loop appends the
  first \<open>counter + 1\<close> bytes of the buffer; when it returns at all, it has
  done so; in every case it only appends.
\<close>

lemma write_loop_ok:
  assumes "\<forall>k. wok k" "0 \<le> i" "counter s < int SIZE_SYSEX_BUF"
    and "length (sysExclMsg s) = SIZE_SYSEX_BUF"
  shows "write_loop wok s i =
           Inr (s\<lparr>ofp := ofp s @ drop (nat i) (take (nat (counter s + 1)) (sysExclMsg s))\<rparr>)"
  using assms
proof (induction wok s i rule: write_loop.induct)
  case (1 wok s i)
  show ?case
  proof (cases "i \<le> counter s")
    case True
    with "1.prems" have nb: "\<not> SIZE_SYSEX_BUF \<le> nat i" by linarith
    let ?s' = "s\<lparr>ofp := ofp s @ [sysExclMsg s ! nat i]\<rparr>"
    have "write_loop wok s i = write_loop wok ?s' (i + 1)"
      using True nb "1.prems"(1) by (subst write_loop.simps) simp
    also have "\<dots> = Inr (?s'\<lparr>ofp := ofp ?s' @ drop (nat (i + 1)) (take (nat (counter ?s' + 1)) (sysExclMsg ?s'))\<rparr>)"
      using True nb "1.prems" by (intro "1.IH") auto
    also have "\<dots> = Inr (s\<lparr>ofp := ofp s @ drop (nat i) (take (nat (counter s + 1)) (sysExclMsg s))\<rparr>)"
    proof -
      have "nat i < length (take (nat (counter s + 1)) (sysExclMsg s))"
        using True nb "1.prems" by simp
      then have "drop (nat i) (take (nat (counter s + 1)) (sysExclMsg s)) =
          sysExclMsg s ! nat i # drop (Suc (nat i)) (take (nat (counter s + 1)) (sysExclMsg s))"
        by (metis Cons_nth_drop_Suc length_take min_less_iff_conj nth_take)
      moreover have "nat (i + 1) = Suc (nat i)" using "1.prems" by simp
      ultimately show ?thesis by simp
    qed
    finally show ?thesis .
  next
    case False
    then show ?thesis
      by (subst write_loop.simps) simp
  qed
qed

lemma write_loop_Inr:
  assumes "write_loop wok s i = Inr s'" "0 \<le> i" "length (sysExclMsg s) = SIZE_SYSEX_BUF"
  shows "s' = s\<lparr>ofp := ofp s @ drop (nat i) (take (nat (counter s + 1)) (sysExclMsg s))\<rparr>"
  using assms
proof (induction wok s i rule: write_loop.induct)
  case (1 wok s i)
  show ?case
  proof (cases "i \<le> counter s")
    case True
    let ?s1 = "s\<lparr>ofp := ofp s @ [sysExclMsg s ! nat i]\<rparr>"
    from True "1.prems"(1) have nb: "\<not> SIZE_SYSEX_BUF \<le> nat i" and w: "wok (length (ofp s))"
      by (subst (asm) write_loop.simps; simp split: if_splits)+
    with True "1.prems"(1) have "write_loop wok ?s1 (i + 1) = Inr s'"
      by (subst (asm) write_loop.simps) simp
    with True nb w "1.prems"(2,3)
    have "s' = ?s1\<lparr>ofp := ofp ?s1 @ drop (nat (i + 1)) (take (nat (counter ?s1 + 1)) (sysExclMsg ?s1))\<rparr>"
      by (intro "1.IH") auto
    moreover have "drop (nat i) (take (nat (counter s + 1)) (sysExclMsg s)) =
          sysExclMsg s ! nat i # drop (nat (i + 1)) (take (nat (counter s + 1)) (sysExclMsg s))"
    proof -
      have "nat i < length (take (nat (counter s + 1)) (sysExclMsg s))"
        using True nb "1.prems" by simp
      then have "drop (nat i) (take (nat (counter s + 1)) (sysExclMsg s)) =
          sysExclMsg s ! nat i # drop (Suc (nat i)) (take (nat (counter s + 1)) (sysExclMsg s))"
        by (metis Cons_nth_drop_Suc length_take min_less_iff_conj nth_take)
      moreover have "nat (i + 1) = Suc (nat i)" using "1.prems" by simp
      ultimately show ?thesis by simp
    qed
    ultimately show ?thesis by simp
  next
    case False
    with "1.prems"(1) have "s' = s"
      by (subst (asm) write_loop.simps) simp
    with False show ?thesis by simp
  qed
qed

lemma write_loop_written:
  "\<exists>ys. written (write_loop wok s i) = ofp s @ ys"
proof (induction wok s i rule: write_loop.induct)
  case (1 wok s i)
  show ?case
  proof (cases "i \<le> counter s \<and> \<not> SIZE_SYSEX_BUF \<le> nat i \<and> wok (length (ofp s))")
    case True
    then have "write_loop wok s i = write_loop wok (s\<lparr>ofp := ofp s @ [sysExclMsg s ! nat i]\<rparr>) (i + 1)"
      by (subst write_loop.simps) simp
    moreover from True
    have "\<exists>ys. written (write_loop wok (s\<lparr>ofp := ofp s @ [sysExclMsg s ! nat i]\<rparr>) (i + 1)) =
        ofp (s\<lparr>ofp := ofp s @ [sysExclMsg s ! nat i]\<rparr>) @ ys"
      by (intro "1.IH") auto
    ultimately show ?thesis by auto
  next
    case False
    then show ?thesis
      by (subst write_loop.simps) (auto simp: written_def)
  qed
qed

lemma write_loop_counter:
  "write_loop wok s i = Inr s' \<Longrightarrow> counter s' = counter s"
  "write_loop wok s i = Inl (e, s') \<Longrightarrow> counter s' = counter s"
proof (induction wok s i rule: write_loop.induct)
  case (1 wok s i)
  {
    case 1
    then show ?case
      using "1.IH"(1) by (subst (asm) write_loop.simps) (auto split: if_splits)
  next
    case 2
    then show ?case
      using "1.IH"(2) by (subst (asm) write_loop.simps) (auto split: if_splits)
  }
qed

lemma write_loop_bound:
  "write_loop wok s i = Inr s' \<Longrightarrow> 0 \<le> i \<Longrightarrow> i \<le> counter s \<Longrightarrow> counter s < int SIZE_SYSEX_BUF"
proof (induction wok s i rule: write_loop.induct)
  case (1 wok s i)
  let ?s1 = "s\<lparr>ofp := ofp s @ [sysExclMsg s ! nat i]\<rparr>"
  from "1.prems" have nb: "\<not> SIZE_SYSEX_BUF \<le> nat i" and w: "wok (length (ofp s))"
    by (subst (asm) write_loop.simps; simp split: if_splits)+
  with "1.prems" have r: "write_loop wok ?s1 (i + 1) = Inr s'"
    by (subst (asm) write_loop.simps) simp
  show ?case
  proof (cases "i + 1 \<le> counter s")
    case True
    with "1.prems" nb w r have "counter ?s1 < int SIZE_SYSEX_BUF"
      by (intro "1.IH") auto
    then show ?thesis by simp
  next
    case False
    with "1.prems" nb show ?thesis by auto
  qed
qed

subsection \<open>Processing at the end marker\<close>

lemma process_eox_fail:
  "verify (sysExclMsg s) = Some e \<Longrightarrow> process_eox wok s = Inl (e, s)"
  by (simp add: process_eox_def)

lemma process_eox_ok:
  assumes "verify (sysExclMsg s) = None" "\<forall>k. wok k"
    and "counter s < int SIZE_SYSEX_BUF" "length (sysExclMsg s) = SIZE_SYSEX_BUF"
  shows "process_eox wok s =
           Inr (s\<lparr>sysExclMsg := (sysExclMsg s)[5 := KSTNID],
                  stdout := stdout s @ info ((sysExclMsg s)[5 := KSTNID]),
                  ofp := ofp s @ take (nat (counter s + 1)) ((sysExclMsg s)[5 := KSTNID]),
                  bufAddr := 0\<rparr>)"
proof -
  let ?s2 = "s\<lparr>sysExclMsg := (sysExclMsg s)[5 := KSTNID],
                stdout := stdout s @ info ((sysExclMsg s)[5 := KSTNID])\<rparr>"
  have "write_loop wok ?s2 0 =
      Inr (?s2\<lparr>ofp := ofp ?s2 @ drop (nat 0) (take (nat (counter ?s2 + 1)) (sysExclMsg ?s2))\<rparr>)"
    using assms by (intro write_loop_ok) auto
  then show ?thesis
    using assms(1) by (simp add: process_eox_def Let_def)
qed

lemma process_eox_Inr:
  assumes "process_eox wok s = Inr s'" "length (sysExclMsg s) = SIZE_SYSEX_BUF"
  shows "ofp s' = ofp s @ take (nat (counter s + 1)) ((sysExclMsg s)[5 := KSTNID])"
proof -
  let ?s2 = "s\<lparr>sysExclMsg := (sysExclMsg s)[5 := KSTNID],
                stdout := stdout s @ info ((sysExclMsg s)[5 := KSTNID])\<rparr>"
  from assms(1) obtain s3 where w: "write_loop wok ?s2 0 = Inr s3" and s': "s' = s3\<lparr>bufAddr := 0\<rparr>"
    by (auto simp: process_eox_def Let_def split: option.splits sum.splits)
  from w have "s3 = ?s2\<lparr>ofp := ofp ?s2 @ drop (nat 0) (take (nat (counter ?s2 + 1)) (sysExclMsg ?s2))\<rparr>"
    using assms(2) by (intro write_loop_Inr) auto
  then show ?thesis by (simp add: s')
qed

lemma process_eox_written:
  "\<exists>ys. written (process_eox wok s) = ofp s @ ys"
proof (cases "verify (sysExclMsg s)")
  case (Some e)
  then show ?thesis by (simp add: process_eox_def written_def)
next
  case None
  let ?s2 = "s\<lparr>sysExclMsg := (sysExclMsg s)[5 := KSTNID],
                stdout := stdout s @ info ((sysExclMsg s)[5 := KSTNID])\<rparr>"
  obtain ys where "written (write_loop wok ?s2 0) = ofp ?s2 @ ys"
    using write_loop_written by blast
  with None show ?thesis
    by (auto simp: process_eox_def written_def Let_def split: sum.splits)
qed

lemma process_eox_counter:
  "process_eox wok s = Inr s' \<Longrightarrow> counter s' = counter s"
  "process_eox wok s = Inl (e, s') \<Longrightarrow> counter s' = counter s"
  "process_eox wok s = Inr s' \<Longrightarrow> bufAddr s' = 0"
  "process_eox wok s = Inr s' \<Longrightarrow> 0 \<le> counter s \<Longrightarrow> counter s < int SIZE_SYSEX_BUF"
proof -
  let ?s2 = "s\<lparr>sysExclMsg := (sysExclMsg s)[5 := KSTNID],
                stdout := stdout s @ info ((sysExclMsg s)[5 := KSTNID])\<rparr>"
  show "counter s' = counter s" if "process_eox wok s = Inr s'"
    using that write_loop_counter(1) [of wok ?s2 0]
    by (auto simp: process_eox_def Let_def split: option.splits sum.splits)
  show "counter s' = counter s" if "process_eox wok s = Inl (e, s')"
    using that write_loop_counter(2) [of wok ?s2 0]
    by (auto simp: process_eox_def Let_def split: option.splits sum.splits)
  show "bufAddr s' = 0" if "process_eox wok s = Inr s'"
    using that by (auto simp: process_eox_def Let_def split: option.splits sum.splits)
  show "counter s < int SIZE_SYSEX_BUF" if "process_eox wok s = Inr s'" "0 \<le> counter s"
    using that write_loop_bound [of wok ?s2 0]
    by (auto simp: process_eox_def Let_def split: option.splits sum.splits)
qed

subsection \<open>The read loop up to an end marker\<close>

text \<open>
  Bytes that hold no end marker are stored and counted; the end marker that follows them
  starts the processing.
\<close>

lemma read_loop_append:
  "read_loop wok s (xs @ ys) =
     (case read_loop wok s xs of Inl r \<Rightarrow> Inl r | Inr s' \<Rightarrow> read_loop wok s' ys)"
  by (induction xs arbitrary: s) (auto split: sum.splits)

lemma read_no_eox:
  assumes "EOX \<notin> set xs" "0 \<le> counter s \<or> (\<exists>t. xs = SOX # t)"
    and "bufAddr s + length xs \<le> SIZE_SYSEX_BUF"
  shows "read_loop wok s xs =
           Inr (s\<lparr>sysExclMsg := store (sysExclMsg s) (bufAddr s) xs,
                  counter := count_from (counter s) xs,
                  bufAddr := bufAddr s + length xs\<rparr>)"
  using assms
proof (induction xs arbitrary: s)
  case Nil
  then show ?case by simp
next
  case (Cons b bs)
  let ?c = "if b = SOX then 0 else counter s + 1"
  let ?s' = "s\<lparr>sysExclMsg := (sysExclMsg s)[bufAddr s := b], counter := ?c,
                bufAddr := bufAddr s + 1\<rparr>"
  from Cons.prems have step: "loop_body wok s b = Inr ?s'"
    by (auto simp: loop_body_def Let_def)
  from Cons.prems have "0 \<le> counter ?s'" by auto
  with Cons.prems have "read_loop wok ?s' bs =
      Inr (?s'\<lparr>sysExclMsg := store (sysExclMsg ?s') (bufAddr ?s') bs,
                  counter := count_from (counter ?s') bs,
                  bufAddr := bufAddr ?s' + length bs\<rparr>)"
    by (intro Cons.IH) auto
  with step show ?case by simp
qed

lemma eox_step:
  assumes "bufAddr s < SIZE_SYSEX_BUF" "0 \<le> counter s"
  shows "loop_body wok s EOX =
           process_eox wok (s\<lparr>sysExclMsg := (sysExclMsg s)[bufAddr s := EOX],
                              counter := counter s + 1\<rparr>)"
  using assms by (simp add: loop_body_def Let_def SOX_def EOX_def)

lemma read_to_eox:
  assumes "EOX \<notin> set xs" "0 \<le> counter s \<or> (\<exists>t. xs = SOX # t)"
    and "bufAddr s + length xs < SIZE_SYSEX_BUF"
  shows "read_loop wok s (xs @ [EOX] @ rest) =
           (case process_eox wok
                  (s\<lparr>sysExclMsg := store (sysExclMsg s) (bufAddr s) (xs @ [EOX]),
                     counter := count_from (counter s) xs + 1,
                     bufAddr := bufAddr s + length xs\<rparr>) of
              Inl r \<Rightarrow> Inl r
            | Inr s' \<Rightarrow> read_loop wok s' rest)"
proof -
  let ?s1 = "s\<lparr>sysExclMsg := store (sysExclMsg s) (bufAddr s) xs,
                counter := count_from (counter s) xs,
                bufAddr := bufAddr s + length xs\<rparr>"
  have r1: "read_loop wok s xs = Inr ?s1"
    using assms by (intro read_no_eox) auto
  have c1: "0 \<le> counter ?s1"
    using assms(2) by (auto intro: count_from_nonneg)
  have "loop_body wok ?s1 EOX =
      process_eox wok (?s1\<lparr>sysExclMsg := (sysExclMsg ?s1)[bufAddr ?s1 := EOX],
                              counter := counter ?s1 + 1\<rparr>)"
    using assms(3) c1 by (intro eox_step) auto
  moreover have "?s1\<lparr>sysExclMsg := (sysExclMsg ?s1)[bufAddr ?s1 := EOX],
                              counter := counter ?s1 + 1\<rparr> =
      s\<lparr>sysExclMsg := store (sysExclMsg s) (bufAddr s) (xs @ [EOX]),
                     counter := count_from (counter s) xs + 1,
                     bufAddr := bufAddr s + length xs\<rparr>"
    by (cases s) (simp add: store_snoc)
  ultimately have "loop_body wok ?s1 EOX =
      process_eox wok (s\<lparr>sysExclMsg := store (sysExclMsg s) (bufAddr s) (xs @ [EOX]),
                     counter := count_from (counter s) xs + 1,
                     bufAddr := bufAddr s + length xs\<rparr>)"
    by (simp only:)
  then show ?thesis
    by (simp only: read_loop_append r1 read_loop.simps sum.case append.simps split: sum.splits)
qed

lemma ready_init: "ready (init junk)"
  by (simp add: ready_def init_def)

lemma chunk_to_eox:
  assumes "ready s" "EOX \<notin> set xs" "0 \<le> counter s \<or> (\<exists>t. xs = SOX # t)"
    and "length xs < SIZE_SYSEX_BUF"
  shows "read_loop wok s (xs @ [EOX] @ rest) =
           (case process_eox wok
                  (s\<lparr>sysExclMsg := xs @ [EOX] @ drop (Suc (length xs)) (sysExclMsg s),
                     counter := count_from (counter s) xs + 1,
                     bufAddr := length xs\<rparr>) of
              Inl r \<Rightarrow> Inl r
            | Inr s' \<Rightarrow> read_loop wok s' rest)"
proof -
  have "store (sysExclMsg s) 0 (xs @ [EOX]) = xs @ [EOX] @ drop (Suc (length xs)) (sysExclMsg s)"
    using assms(1,4) by (subst store_eq) (auto simp: ready_def)
  moreover have "bufAddr s = 0" using assms(1) by (simp add: ready_def)
  ultimately show ?thesis
    using read_to_eox [of xs s wok rest] assms(2,3,4) by simp
qed

lemma loop_body_written:
  "\<exists>ys. written (loop_body wok s b) = ofp s @ ys"
proof -
  have p: "\<exists>ys. written (process_eox wok s') = ofp s @ ys" if "ofp s' = ofp s" for s'
    using process_eox_written [of wok s'] that by simp
  let ?s2 = "s\<lparr>sysExclMsg := (sysExclMsg s)[bufAddr s := b],
                counter := (if b = SOX then 0 else counter s + 1)\<rparr>"
  show ?thesis
  proof (cases "b = EOX \<and> \<not> SIZE_SYSEX_BUF \<le> bufAddr s \<and> \<not> (counter s = - 1 \<and> b \<noteq> SOX)")
    case True
    moreover have "EOX \<noteq> SOX" by (simp add: SOX_def EOX_def)
    ultimately have "loop_body wok s b = process_eox wok ?s2"
      by (auto simp: loop_body_def Let_def)
    then show ?thesis using p [of ?s2] by simp
  next
    case False
    then show ?thesis
      by (auto simp: loop_body_def Let_def written_def)
  qed
qed

lemma read_loop_written:
  "\<exists>ys. written (read_loop wok s bs) = ofp s @ ys"
proof (induction bs arbitrary: s)
  case Nil
  then show ?case by (simp add: written_def)
next
  case (Cons b bs)
  obtain ys where ys: "written (loop_body wok s b) = ofp s @ ys"
    using loop_body_written by blast
  show ?case
  proof (cases "loop_body wok s b")
    case (Inl r)
    with ys show ?thesis by (auto simp: written_def)
  next
    case (Inr s1)
    with ys have "ofp s1 = ofp s @ ys" by (simp add: written_def)
    moreover obtain zs where "written (read_loop wok s1 bs) = ofp s1 @ zs"
      using Cons.IH by blast
    ultimately show ?thesis using Inr by simp
  qed
qed

subsection \<open>Frames and their headers\<close>

text \<open>
  The header checks, run on a buffer that starts with a frame, read the frame only: a
  check is reached when the bytes before it are the expected ones, none of which is the
  end marker.
\<close>

lemma is_frame_iff:
  "is_frame f \<longleftrightarrow> (\<exists>body. f = SOX # body @ [EOX] \<and> SOX \<notin> set body \<and> EOX \<notin> set body)"
proof (cases f)
  case Nil
  then show ?thesis by simp
next
  case (Cons b bs)
  show ?thesis
  proof
    assume "is_frame f"
    with Cons have h: "b = SOX" "bs \<noteq> []" "last bs = EOX" "SOX \<notin> set bs" "EOX \<notin> set (butlast bs)"
      by auto
    from h(2,3) have "bs = butlast bs @ [EOX]" by (metis append_butlast_last_id)
    moreover from h(4) have "SOX \<notin> set (butlast bs)" by (meson in_set_butlastD)
    ultimately show "\<exists>body. f = SOX # body @ [EOX] \<and> SOX \<notin> set body \<and> EOX \<notin> set body"
      using Cons h(1,5) by auto
  next
    assume "\<exists>body. f = SOX # body @ [EOX] \<and> SOX \<notin> set body \<and> EOX \<notin> set body"
    then show "is_frame f" by (auto simp: SOX_def EOX_def)
  qed
qed

lemma is_frameD:
  assumes "is_frame f"
  obtains body where "f = SOX # body @ [EOX]" "SOX \<notin> set body" "EOX \<notin> set body"
  using assms by (auto simp: is_frame_iff)

lemma frame_len2: "is_frame f \<Longrightarrow> 1 < length f"
  by (cases f) (auto simp: Suc_lessI)

lemma frame_succ:
  assumes "is_frame f" "k < length f" "f ! k \<noteq> EOX"
  shows "Suc k < length f"
proof (rule ccontr)
  assume "\<not> Suc k < length f"
  with assms(2) have k: "k = length f - 1" by simp
  from assms(1) obtain body where "f = SOX # body @ [EOX]"
    by (rule is_frameD)
  then have "f ! (length f - 1) = EOX"
    by (simp add: nth_append)
  with k assms(3) show False by simp
qed

lemma frame_reach:
  assumes "is_frame f"
  shows "1 < length f"
    and "f ! 1 = NOVID1 \<Longrightarrow> 2 < length f"
    and "f ! 1 = NOVID1 \<Longrightarrow> f ! 2 = NOVID2 \<Longrightarrow> 3 < length f"
    and "f ! 1 = NOVID1 \<Longrightarrow> f ! 2 = NOVID2 \<Longrightarrow> f ! 3 = NOVID3 \<Longrightarrow> 4 < length f"
    and "f ! 1 = NOVID1 \<Longrightarrow> f ! 2 = NOVID2 \<Longrightarrow> f ! 3 = NOVID3 \<Longrightarrow> f ! 4 = DEVTYP \<Longrightarrow> 5 < length f"
proof -
  have nx: "Suc k < length f" if "k < length f" "f ! k \<noteq> EOX" for k
    using assms that by (rule frame_succ)
  show l1: "1 < length f" using assms by (rule frame_len2)
  show l2: "2 < length f" if "f ! 1 = NOVID1"
    using nx [of 1] l1 that by (simp add: consts_defs)
  show l3: "3 < length f" if "f ! 1 = NOVID1" "f ! 2 = NOVID2"
    using nx [of 2] l2 that by (simp add: consts_defs)
  show l4: "4 < length f" if "f ! 1 = NOVID1" "f ! 2 = NOVID2" "f ! 3 = NOVID3"
    using nx [of 3] l3 that by (simp add: consts_defs)
  show "5 < length f" if "f ! 1 = NOVID1" "f ! 2 = NOVID2" "f ! 3 = NOVID3" "f ! 4 = DEVTYP"
    using nx [of 4] l4 that by (simp add: consts_defs)
qed

lemma take5_tlD:
  assumes "take 5 (tl f) = [a, b, c, d, e]"
  obtains x r where "f = x # a # b # c # d # e # r"
proof -
  from assms have "tl f = [a, b, c, d, e] @ drop 5 (tl f)"
    by (metis append_take_drop_id)
  moreover from assms have "f \<noteq> []" by auto
  ultimately have "f = hd f # a # b # c # d # e # drop 5 (tl f)"
    by (metis append_Cons append_Nil list.collapse)
  then show ?thesis by (rule that)
qed

lemma take5_tl_nth:
  assumes "5 < length f"
  shows "take 5 (tl f) = [f ! 1, f ! 2, f ! 3, f ! 4, f ! 5]"
proof -
  obtain x f1 where 1: "f = x # f1" using assms by (cases f) auto
  obtain a f2 where 2: "f1 = a # f2" using assms 1 by (cases f1) auto
  obtain b f3 where 3: "f2 = b # f3" using assms 1 2 by (cases f2) auto
  obtain c f4 where 4: "f3 = c # f4" using assms 1 2 3 by (cases f3) auto
  obtain d f5 where 5: "f4 = d # f5" using assms 1 2 3 4 by (cases f4) auto
  obtain e f6 where 6: "f5 = e # f6" using assms 1 2 3 4 5 by (cases f5) auto
  show ?thesis by (simp add: 1 2 3 4 5 6)
qed

lemma take3_tl_nth:
  assumes "3 < length f"
  shows "take 3 (tl f) = [f ! 1, f ! 2, f ! 3]"
proof -
  obtain x f1 where 1: "f = x # f1" using assms by (cases f) auto
  obtain a f2 where 2: "f1 = a # f2" using assms 1 by (cases f1) auto
  obtain b f3 where 3: "f2 = b # f3" using assms 1 2 by (cases f2) auto
  obtain c f4 where 4: "f3 = c # f4" using assms 1 2 3 by (cases f3) auto
  show ?thesis by (simp add: 1 2 3 4)
qed

lemma verify_source_frame:
  assumes "source_frame f"
  shows "verify (f @ rest) = None"
proof -
  from assms have "take 5 (tl f) = [NOVID1, NOVID2, NOVID3, DEVTYP, ASTNID]"
    by (simp add: source_frame_def)
  then obtain x r where "f = x # NOVID1 # NOVID2 # NOVID3 # DEVTYP # ASTNID # r"
    by (rule take5_tlD)
  then show ?thesis
    by (simp add: verify_def consts_defs)
qed

lemma verify_frame:
  assumes "is_frame f"
  shows "header_case f (verify (f @ rest))"
proof -
  note l = frame_reach [OF assms]
  show ?thesis
  proof (cases "f ! 1 = NOVID1")
    case False
    then show ?thesis using l(1) by (simp add: verify_def nth_append header_case_def)
  next
    case c1: True
    show ?thesis
    proof (cases "f ! 2 = NOVID2")
      case False
      then show ?thesis using l(1) l(2) c1 by (simp add: verify_def nth_append header_case_def)
    next
      case c2: True
      show ?thesis
      proof (cases "f ! 3 = NOVID3")
        case False
        then show ?thesis using l(1) l(2) l(3) c1 c2
          by (simp add: verify_def nth_append header_case_def)
      next
        case c3: True
        show ?thesis
        proof (cases "f ! 4 = DEVTYP")
          case False
          then show ?thesis using l(1) l(2) l(3) l(4) c1 c2 c3
            by (simp add: verify_def nth_append header_case_def)
        next
          case c4: True
          have l5: "5 < length f" using l(5) c1 c2 c3 c4 by simp
          have "take 5 (tl f) = [NOVID1, NOVID2, NOVID3, DEVTYP, f ! 5]"
            using take5_tl_nth [OF l5] c1 c2 c3 c4 by simp
          then show ?thesis using l5 c1 c2 c3 c4
            by (simp add: verify_def nth_append header_case_def)
        qed
      qed
    qed
  qed
qed

lemma vendor_case:
  assumes "header_case f r" "take 3 (tl f) \<noteq> [NOVID1, NOVID2, NOVID3]"
  shows "r = Some (UnknownVendorId 1 (f ! 1)) \<and> 1 < length f \<and> f ! 1 \<noteq> NOVID1
       \<or> r = Some (UnknownVendorId 2 (f ! 2)) \<and> 2 < length f \<and> f ! 2 \<noteq> NOVID2
       \<or> r = Some (UnknownVendorId 3 (f ! 3)) \<and> 3 < length f \<and> f ! 3 \<noteq> NOVID3"
proof -
  have "take 3 (tl f) = [NOVID1, NOVID2, NOVID3]"
    if "take 5 (tl f) = [NOVID1, NOVID2, NOVID3, DEVTYP, ASTNID]"
  proof -
    have "take 3 (tl f) = take 3 (take 5 (tl f))" by simp
    with that show ?thesis by simp
  qed
  moreover have "take 3 (tl f) = [NOVID1, NOVID2, NOVID3]"
    if "3 < length f" "f ! 1 = NOVID1" "f ! 2 = NOVID2" "f ! 3 = NOVID3"
    using take3_tl_nth [OF that(1)] that(2,3,4) by simp
  ultimately show ?thesis
    using assms unfolding header_case_def by fastforce
qed

lemma patch_take:
  "take (length f) ((f @ rest)[5 := KSTNID]) = patch f"
  by (simp add: patch_def list_update_append list_update_beyond)

lemma patched_frame:
  assumes "source_frame f"
  shows "is_frame (patch f)" and "length (patch f) \<le> SIZE_SYSEX_BUF"
    and "verify (patch f @ r) = Some AlreadyTargetFormat"
proof -
  from assms have fr: "is_frame f" and len: "length f \<le> SIZE_SYSEX_BUF"
    and "take 5 (tl f) = [NOVID1, NOVID2, NOVID3, DEVTYP, ASTNID]"
    by (simp_all add: source_frame_def)
  then obtain x t where f: "f = x # NOVID1 # NOVID2 # NOVID3 # DEVTYP # ASTNID # t"
    by (auto elim: take5_tlD)
  from fr f have t: "t \<noteq> []" by (auto simp: consts_defs)
  from fr f t show "is_frame (patch f)"
    by (simp add: patch_def) (simp add: consts_defs)
  from len show "length (patch f) \<le> SIZE_SYSEX_BUF" by (simp add: patch_def)
  show "verify (patch f @ r) = Some AlreadyTargetFormat"
    by (simp add: f patch_def verify_def)
qed

subsection \<open>A frame in the stream\<close>

lemma frame_to_eox:
  assumes "ready s" "is_frame f" "length f \<le> SIZE_SYSEX_BUF"
  shows "read_loop wok s (f @ rest) =
           (case process_eox wok
                  (s\<lparr>sysExclMsg := f @ drop (length f) (sysExclMsg s),
                     counter := int (length f) - 1,
                     bufAddr := length f - 1\<rparr>) of
              Inl r \<Rightarrow> Inl r
            | Inr s' \<Rightarrow> read_loop wok s' rest)"
proof -
  from assms(2) obtain body where f: "f = SOX # body @ [EOX]"
    and nb: "SOX \<notin> set body" "EOX \<notin> set body"
    by (rule is_frameD)
  have e1: "(SOX # body) @ [EOX] @ rest = f @ rest"
    by (simp add: f)
  have e2: "(SOX # body) @ [EOX] @ drop (Suc (length (SOX # body))) (sysExclMsg s) =
      f @ drop (length f) (sysExclMsg s)"
    by (simp add: f)
  have e3: "count_from (counter s) (SOX # body) + 1 = int (length f) - 1"
    using nb(1) by (simp add: f count_from_plain)
  have e4: "length (SOX # body) = length f - 1"
    by (simp add: f)
  have "read_loop wok s ((SOX # body) @ [EOX] @ rest) =
           (case process_eox wok
                  (s\<lparr>sysExclMsg := (SOX # body) @ [EOX] @ drop (Suc (length (SOX # body))) (sysExclMsg s),
                     counter := count_from (counter s) (SOX # body) + 1,
                     bufAddr := length (SOX # body)\<rparr>) of
              Inl r \<Rightarrow> Inl r
            | Inr s' \<Rightarrow> read_loop wok s' rest)"
    using assms(1,3) nb(2) f by (intro chunk_to_eox) (auto simp: SOX_def EOX_def)
  from this [unfolded e1 e2 e3] show ?thesis
    unfolding e4 .
qed

lemma frame_pass:
  assumes "ready s" "source_frame f" "\<forall>k. wok k"
  shows "read_loop wok s (f @ rest) =
           read_loop wok
             (s\<lparr>sysExclMsg := (f @ drop (length f) (sysExclMsg s))[5 := KSTNID],
                counter := int (length f) - 1,
                bufAddr := 0,
                ofp := ofp s @ patch f,
                stdout := stdout s @ info ((f @ drop (length f) (sysExclMsg s))[5 := KSTNID])\<rparr>)
             rest"
proof -
  from assms(2) have fr: "is_frame f" and len: "length f \<le> SIZE_SYSEX_BUF"
    by (simp_all add: source_frame_def)
  from fr have pos: "0 < length f" by (cases f) auto
  let ?m = "f @ drop (length f) (sysExclMsg s)"
  let ?s1 = "s\<lparr>sysExclMsg := ?m, counter := int (length f) - 1, bufAddr := length f - 1\<rparr>"
  have lm: "length ?m = SIZE_SYSEX_BUF"
    using assms(1) len by (simp add: ready_def)
  have "process_eox wok ?s1 =
           Inr (?s1\<lparr>sysExclMsg := (sysExclMsg ?s1)[5 := KSTNID],
                  stdout := stdout ?s1 @ info ((sysExclMsg ?s1)[5 := KSTNID]),
                  ofp := ofp ?s1 @ take (nat (counter ?s1 + 1)) ((sysExclMsg ?s1)[5 := KSTNID]),
                  bufAddr := 0\<rparr>)"
    using assms(3) len pos lm verify_source_frame [OF assms(2)]
    by (intro process_eox_ok) auto
  moreover have "take (nat (counter ?s1 + 1)) ((sysExclMsg ?s1)[5 := KSTNID]) = patch f"
    using patch_take [of f "drop (length f) (sysExclMsg s)"] by simp
  moreover have "?s1\<lparr>sysExclMsg := (sysExclMsg ?s1)[5 := KSTNID],
                  stdout := stdout ?s1 @ info ((sysExclMsg ?s1)[5 := KSTNID]),
                  ofp := ofp ?s1 @ patch f,
                  bufAddr := 0\<rparr> =
      s\<lparr>sysExclMsg := ?m[5 := KSTNID],
                counter := int (length f) - 1,
                bufAddr := 0,
                ofp := ofp s @ patch f,
                stdout := stdout s @ info (?m[5 := KSTNID])\<rparr>"
    by (cases s) simp
  ultimately have "process_eox wok ?s1 = Inr (s\<lparr>sysExclMsg := ?m[5 := KSTNID],
                counter := int (length f) - 1,
                bufAddr := 0,
                ofp := ofp s @ patch f,
                stdout := stdout s @ info (?m[5 := KSTNID])\<rparr>)"
    by (simp only:)
  then show ?thesis
    using frame_to_eox [OF assms(1) fr len, of wok rest] by (simp only: sum.case)
qed

lemma frame_pass':
  assumes "ready s" "source_frame f" "\<forall>k. wok k"
  shows "read_loop wok s (f @ rest) = read_loop wok (after_frame s f) rest"
  unfolding after_frame_def using assms by (rule frame_pass)

lemma frame_fail:
  assumes "ready s" "is_frame f" "length f \<le> SIZE_SYSEX_BUF"
    and "verify (f @ drop (length f) (sysExclMsg s)) = Some e"
  shows "read_loop wok s (f @ rest) =
           Inl (e, s\<lparr>sysExclMsg := f @ drop (length f) (sysExclMsg s),
                      counter := int (length f) - 1,
                      bufAddr := length f - 1\<rparr>)"
proof -
  let ?s1 = "s\<lparr>sysExclMsg := f @ drop (length f) (sysExclMsg s),
                counter := int (length f) - 1, bufAddr := length f - 1\<rparr>"
  have "process_eox wok ?s1 = Inl (e, ?s1)"
    using assms(4) by (intro process_eox_fail) simp
  then show ?thesis
    using frame_to_eox [OF assms(1,2,3), of wok rest] by (simp only: sum.case)
qed

lemma ready_after_frame:
  "ready s \<Longrightarrow> source_frame f \<Longrightarrow> ready (after_frame s f)"
  by (simp add: ready_def after_frame_def source_frame_def)

lemma frames_pass:
  assumes "ready s" "\<forall>g\<in>set fs. source_frame g" "\<forall>k. wok k"
  shows "read_loop wok s (concat fs @ rest) = read_loop wok (foldl after_frame s fs) rest"
  using assms(1,2)
proof (induction fs arbitrary: s)
  case Nil
  then show ?case by simp
next
  case (Cons f fs)
  from Cons.prems have "read_loop wok s (f @ concat fs @ rest) =
      read_loop wok (after_frame s f) (concat fs @ rest)"
    by (intro frame_pass' assms(3)) auto
  moreover from Cons.prems have "ready (after_frame s f)"
    by (intro ready_after_frame) auto
  ultimately show ?case
    using Cons.IH [of "after_frame s f"] Cons.prems(2) by simp
qed

lemma ready_after_frames:
  "ready s \<Longrightarrow> \<forall>g\<in>set fs. source_frame g \<Longrightarrow> ready (foldl after_frame s fs)"
  by (induction fs arbitrary: s) (auto intro: ready_after_frame)

lemma ofp_after_frames:
  "ofp (foldl after_frame s fs) = ofp s @ concat (map patch fs)"
  by (induction fs arbitrary: s) (auto simp: after_frame_def)

lemma counter_after_frames:
  "0 \<le> counter s \<or> fs \<noteq> [] \<Longrightarrow> \<forall>g\<in>set fs. source_frame g \<Longrightarrow> 0 \<le> counter (foldl after_frame s fs)"
proof (induction fs arbitrary: s)
  case Nil
  then show ?case by simp
next
  case (Cons f fs)
  then have "source_frame f" by simp
  then have "0 < length f" by (cases f) (auto simp: source_frame_def)
  then have "0 \<le> counter (after_frame s f)" by (simp add: after_frame_def)
  with Cons show ?case by simp
qed

lemma transcode_frames:
  assumes "\<forall>g\<in>set fs. source_frame g" "\<forall>k. wok k"
  shows "transcode wok junk (concat fs @ rest) = read_loop wok (foldl after_frame (init junk) fs) rest"
  unfolding transcode_def using ready_init assms by (rule frames_pass)

lemma transcode_frames_Inr:
  assumes "\<forall>g\<in>set fs. source_frame g" "\<forall>k. wok k"
  shows "transcode wok junk (concat fs) = Inr (foldl after_frame (init junk) fs)"
  using transcode_frames [OF assms, where junk = junk and rest = "[]"] by simp


lemma first_frame_written:
  assumes "ready s" "source_frame f" "read_loop wok s (f @ rest) = Inr s'"
  shows "\<exists>ys. ofp s' = ofp s @ patch f @ ys"
proof -
  from assms(2) have fr: "is_frame f" and len: "length f \<le> SIZE_SYSEX_BUF"
    by (simp_all add: source_frame_def)
  from fr have pos: "0 < length f" by (cases f) auto
  let ?m = "f @ drop (length f) (sysExclMsg s)"
  let ?s1 = "s\<lparr>sysExclMsg := ?m, counter := int (length f) - 1, bufAddr := length f - 1\<rparr>"
  have lm: "length ?m = SIZE_SYSEX_BUF"
    using assms(1) len by (simp add: ready_def)
  from frame_to_eox [OF assms(1) fr len, of wok rest] assms(3)
  obtain s2 where p: "process_eox wok ?s1 = Inr s2" and r: "read_loop wok s2 rest = Inr s'"
    by (auto split: sum.splits)
  from p lm have "ofp s2 = ofp ?s1 @ take (nat (counter ?s1 + 1)) ((sysExclMsg ?s1)[5 := KSTNID])"
    by (intro process_eox_Inr) auto
  moreover have "take (nat (counter ?s1 + 1)) ((sysExclMsg ?s1)[5 := KSTNID]) = patch f"
    using patch_take [of f "drop (length f) (sysExclMsg s)"] by simp
  ultimately have o2: "ofp s2 = ofp s @ patch f" by simp
  obtain ys where "written (read_loop wok s2 rest) = ofp s2 @ ys"
    using read_loop_written by blast
  with r o2 show ?thesis by (simp add: written_def)
qed

subsection \<open>Nothing is written before the checks\<close>



subsection \<open>A frame cut short, and stray bytes\<close>

lemma truncated_tail:
  assumes "ready s" "EOX \<notin> set tail" "length tail < SIZE_SYSEX_BUF"
  shows "\<exists>s'. read_loop wok s (SOX # tail) = Inr s' \<and> ofp s' = ofp s \<and> stdout s' = stdout s"
proof -
  have "read_loop wok s (SOX # tail) =
           Inr (s\<lparr>sysExclMsg := store (sysExclMsg s) (bufAddr s) (SOX # tail),
                  counter := count_from (counter s) (SOX # tail),
                  bufAddr := bufAddr s + length (SOX # tail)\<rparr>)"
    using assms by (intro read_no_eox) (auto simp: ready_def SOX_def EOX_def)
  then show ?thesis by simp
qed

lemma truncated_stream:
  assumes "\<forall>g\<in>set fs. source_frame g" and "EOX \<notin> set tail" and "length tail < SIZE_SYSEX_BUF"
    and "\<forall>k. wok k"
  shows "failure (transcode wok junk (concat fs @ SOX # tail)) = None \<and>
         written (transcode wok junk (concat fs @ SOX # tail)) = concat (map patch fs)"
proof -
  let ?s = "foldl after_frame (init junk) fs"
  have rd: "ready ?s"
    using ready_init assms(1) by (rule ready_after_frames)
  have o: "ofp ?s = concat (map patch fs)"
    by (simp add: ofp_after_frames init_def)
  have t: "transcode wok junk (concat fs @ SOX # tail) = read_loop wok ?s (SOX # tail)"
    using assms(1,4) by (rule transcode_frames)
  from truncated_tail [OF rd assms(2,3), of wok] o show ?thesis
    by (auto simp: t failure_def written_def)
qed

lemma stray_vendor:
  assumes "stray \<noteq> []" "length stray \<le> 3 \<or> take 3 (tl stray) \<noteq> [NOVID1, NOVID2, NOVID3]"
  shows "\<exists>k. (k = 1 \<or> k = 2 \<or> k = 3) \<and> k \<le> length stray \<and>
           verify (stray @ SOX # r) = Some (UnknownVendorId k ((stray @ SOX # r) ! k))"
proof -
  from assms(1) obtain x s1 where 1: "stray = x # s1" by (cases stray) auto
  show ?thesis
  proof (cases s1)
    case Nil
    with 1 show ?thesis by (simp add: verify_def consts_defs)
  next
    case (Cons y s2)
    note 2 = this
    show ?thesis
    proof (cases s2)
      case Nil
      with 1 2 show ?thesis by (simp add: verify_def consts_defs)
    next
      case (Cons z s3)
      note 3 = this
      show ?thesis
      proof (cases s3)
        case Nil
        with 1 2 3 show ?thesis by (simp add: verify_def consts_defs)
      next
        case (Cons w s4)
        with 1 2 3 assms(2) have "[y, z, w] \<noteq> [NOVID1, NOVID2, NOVID3]" by simp
        with 1 2 3 Cons show ?thesis by (auto simp: verify_def)
      qed
    qed
  qed
qed

lemma stray_then_frame:
  assumes "ready s" "0 \<le> counter s"
    and "stray \<noteq> []" "SOX \<notin> set stray" "EOX \<notin> set stray"
    and "is_frame f" "length stray + length f \<le> SIZE_SYSEX_BUF"
    and "length stray \<le> 3 \<or> take 3 (tl stray) \<noteq> [NOVID1, NOVID2, NOVID3]"
  shows "\<exists>k. (k = 1 \<or> k = 2 \<or> k = 3) \<and> k \<le> length stray \<and>
           failure (read_loop wok s (stray @ f @ rest)) =
             Some (UnknownVendorId k ((stray @ f) ! k)) \<and>
           written (read_loop wok s (stray @ f @ rest)) = ofp s"
proof -
  from assms(6) obtain body where f: "f = SOX # body @ [EOX]"
    and nb: "SOX \<notin> set body" "EOX \<notin> set body"
    by (rule is_frameD)
  let ?xs = "stray @ SOX # body"
  let ?s1 = "s\<lparr>sysExclMsg := ?xs @ [EOX] @ drop (Suc (length ?xs)) (sysExclMsg s),
                counter := count_from (counter s) ?xs + 1,
                bufAddr := length ?xs\<rparr>"
  have run: "read_loop wok s (?xs @ [EOX] @ rest) =
           (case process_eox wok ?s1 of Inl r \<Rightarrow> Inl r | Inr s' \<Rightarrow> read_loop wok s' rest)"
    using assms(1,2,5,7) nb(2) f by (intro chunk_to_eox) (auto simp: SOX_def EOX_def)
  have inp: "?xs @ [EOX] @ rest = stray @ f @ rest"
    by (simp add: f)
  from stray_vendor [OF assms(3,8), of "body @ [EOX] @ drop (Suc (length ?xs)) (sysExclMsg s)"]
  obtain k where k: "k = 1 \<or> k = 2 \<or> k = 3" "k \<le> length stray"
    and v: "verify (sysExclMsg ?s1) = Some (UnknownVendorId k (sysExclMsg ?s1 ! k))"
    by auto
  have "sysExclMsg ?s1 ! k = (stray @ f) ! k"
    using k(2) by (simp add: f nth_append)
  with v have "process_eox wok ?s1 = Inl (UnknownVendorId k ((stray @ f) ! k), ?s1)"
    by (simp add: process_eox_fail)
  with run have "read_loop wok s (stray @ f @ rest) = Inl (UnknownVendorId k ((stray @ f) ! k), ?s1)"
    unfolding inp by simp
  with k show ?thesis
    by (auto simp: failure_def written_def)
qed

subsection \<open>The report on the standard output\<close>

lemma info_cong:
  assumes "m ! 7 = m' ! 7" "m ! 8 = m' ! 8" "m ! 11 = m' ! 11" "m ! 12 = m' ! 12"
  shows "info m = info m'"
  using assms by (simp add: info_def)

lemma info_buffer:
  assumes "12 < length f"
  shows "info ((f @ r)[5 := KSTNID]) = info f"
  using assms by (intro info_cong) (simp_all add: nth_append)

lemma printed_empty: "printed (transcode wok junk []) = []"
  by (simp add: transcode_def init_def printed_def)

lemma printed_frames_then_frame:
  assumes "\<forall>g\<in>set fs. source_frame g" "source_frame f" "12 < length f" "\<forall>k. wok k"
  shows "printed (transcode wok junk (concat fs @ f)) =
           printed (transcode wok junk (concat fs)) @ info f"
proof -
  let ?s = "foldl after_frame (init junk) fs"
  have "transcode wok junk (concat fs) = Inr ?s"
    using assms(1,4) by (rule transcode_frames_Inr)
  moreover have "\<forall>g\<in>set (fs @ [f]). source_frame g"
    using assms(1,2) by simp
  then have "transcode wok junk (concat (fs @ [f])) = Inr (foldl after_frame (init junk) (fs @ [f]))"
    using assms(4) by (rule transcode_frames_Inr)
  then have "transcode wok junk (concat fs @ f) = Inr (after_frame ?s f)"
    by simp
  ultimately show ?thesis
    using info_buffer [OF assms(3)] by (simp add: printed_def after_frame_def)
qed

lemma dec_values:
  "dec 3 = ''3''" "dec 7 = ''7''" "dec 10 = ''10''" "dec 11 = ''11''"
  by (simp_all add: dec.simps)

lemma info_program:
  assumes "f ! 7 = MSGTYP_PRG" "f ! 8 = 1" "f ! 11 = 3" "f ! 12 = 7"
  shows "info f = ''[INFO] PROGRAM BANK=3, PROGRAM NUMBER=7'' @ newline"
  using assms by (simp add: info_def consts_defs dec_values)

lemma info_pair:
  assumes "f ! 7 = MSGTYP_PAI" "f ! 8 = 0 \<or> f ! 8 = 1" "f ! 12 = 10"
  shows "info f = ''[INFO] PROGRAM BANK='' @ dec (unat (f ! 11)) @ '', PROGRAM NUMBER=10 and 11'' @ newline"
  using assms by (auto simp: info_def consts_defs dec_values)

lemma info_pair_current:
  assumes "f ! 7 = MSGTYP_PAI" "f ! 8 = 0"
  shows "info f = ''[INFO] PROGRAM BANK='' @ dec (unat (f ! 11)) @ '', PROGRAM NUMBER='' @
           dec (unat (f ! 12)) @ '' and '' @ dec (unat (f ! 12) + 1) @ newline"
  using assms by (simp add: info_def consts_defs)

text \<open>Whatever the buffer holds, the report is empty or a line that starts with the tag.\<close>

lemma info_tag: "info m = [] \<or> take 7 (info m) = ''[INFO] ''"
  by (simp add: info_def)

subsection \<open>The counter stays small\<close>

text \<open>The counter never exceeds twice the size of the buffer, so the C \<^verbatim>\<open>int\<close> never overflows.\<close>

lemma loop_body_in_range:
  assumes "in_range s"
  shows "loop_body wok s b = Inr s' \<Longrightarrow> in_range s'"
    and "loop_body wok s b = Inl (e, s') \<Longrightarrow> - 1 \<le> counter s' \<and> counter s' \<le> counter s + 1"
proof -
  let ?s2 = "s\<lparr>sysExclMsg := (sysExclMsg s)[bufAddr s := b],
                counter := (if b = SOX then 0 else counter s + 1)\<rparr>"
  have ne: "EOX \<noteq> SOX" by (simp add: SOX_def EOX_def)
  show "in_range s'" if r: "loop_body wok s b = Inr s'"
  proof (cases "b = EOX")
    case True
    with r ne have p: "process_eox wok ?s2 = Inr s'" and c: "counter s \<noteq> - 1"
      by (auto simp: loop_body_def Let_def split: if_splits)
    from c assms True ne have "0 \<le> counter ?s2" by (auto simp: in_range_def)
    with process_eox_counter(1,3,4) [OF p] show ?thesis
      by (simp add: in_range_def)
  next
    case False
    with r assms show ?thesis
      by (auto simp: loop_body_def Let_def in_range_def split: if_splits)
  qed
  show "- 1 \<le> counter s' \<and> counter s' \<le> counter s + 1" if r: "loop_body wok s b = Inl (e, s')"
  proof (cases "b = EOX \<and> \<not> SIZE_SYSEX_BUF \<le> bufAddr s \<and> counter s \<noteq> - 1")
    case True
    with r ne have p: "process_eox wok ?s2 = Inl (e, s')"
      by (auto simp: loop_body_def Let_def split: if_splits)
    from process_eox_counter(2) [OF p] True ne assms show ?thesis
      by (auto simp: in_range_def)
  next
    case False
    with r assms ne show ?thesis
      by (auto simp: loop_body_def Let_def in_range_def split: if_splits)
  qed
qed

lemma read_loop_in_range:
  assumes "in_range s"
  shows "read_loop wok s bs = Inr s' \<Longrightarrow> in_range s'"
    and "read_loop wok s bs = Inl (e, s') \<Longrightarrow>
           - 1 \<le> counter s' \<and> counter s' \<le> 2 * int SIZE_SYSEX_BUF"
  using assms
proof (induction bs arbitrary: s)
  case Nil
  {
    case 1
    then show ?case by simp
  next
    case 2
    then show ?case by simp
  }
next
  case (Cons b bs)
  {
    case 1
    then obtain s1 where s1: "loop_body wok s b = Inr s1" and r: "read_loop wok s1 bs = Inr s'"
      by (auto split: sum.splits)
    from loop_body_in_range(1) [OF "1"(2) s1] have "in_range s1" .
    with r show ?case by (rule Cons.IH(1))
  next
    case 2
    show ?case
    proof (cases "loop_body wok s b")
      case (Inl r)
      with 2 have "loop_body wok s b = Inl (e, s')" by simp
      from loop_body_in_range(2) [OF "2"(2) this] "2"(2) show ?thesis
        by (auto simp: in_range_def)
    next
      case (Inr s1)
      with 2 have r: "read_loop wok s1 bs = Inl (e, s')" by simp
      from loop_body_in_range(1) [OF "2"(2) Inr] have "in_range s1" .
      with r show ?thesis by (rule Cons.IH(2))
    qed
  }
qed

lemma counter_small:
  shows "transcode wok junk bs = Inr s \<Longrightarrow> - 1 \<le> counter s \<and> counter s < 2 * int SIZE_SYSEX_BUF"
    and "transcode wok junk bs = Inl (e, s) \<Longrightarrow> - 1 \<le> counter s \<and> counter s \<le> 2 * int SIZE_SYSEX_BUF"
proof -
  have i: "in_range (init junk)"
    by (simp add: in_range_def init_def)
  show "- 1 \<le> counter s \<and> counter s < 2 * int SIZE_SYSEX_BUF" if "transcode wok junk bs = Inr s"
    using read_loop_in_range(1) [OF i, of wok bs s] that
    by (auto simp: transcode_def in_range_def)
  show "- 1 \<le> counter s \<and> counter s \<le> 2 * int SIZE_SYSEX_BUF" if "transcode wok junk bs = Inl (e, s)"
    using read_loop_in_range(2) [OF i, of wok bs e s] that
    by (simp add: transcode_def)
qed

subsection \<open>The messages of the header failures\<close>



section \<open>The claims\<close>

subsection \<open>Facts on the example frames\<close>

lemma size_sysex_buf: "SIZE_SYSEX_BUF = 270"
  by (simp add: SIZE_SYSEX_BUF_def SIZE_PROGRAM_DATA_def OFFSET_PROGRAM_def)

lemma always_ok_all: "\<forall>k. always_ok k"
  by (simp add: always_ok_def)

lemma program_dump_source: "source_frame program_dump"
  by (simp add: source_frame_def program_dump_def consts_defs size_sysex_buf)

lemma pair_dump_source: "source_frame pair_dump"
  by (simp add: source_frame_def pair_dump_def consts_defs size_sysex_buf)

lemma program_dump_patched:
  "patch program_dump =
     [0xF0, 0x00, 0x20, 0x29, 0x01, 0x41, 0x7F, 0x01, 0x01, 0x00, 0x00, 0x03, 0x07, 0x11, 0x22, 0xF7]"
  by (simp add: patch_def program_dump_def KSTNID_def)

lemma pair_dump_patched:
  "patch pair_dump =
     [0xF0, 0x00, 0x20, 0x29, 0x01, 0x41, 0x7F, 0x02, 0x00, 0x00, 0x00, 0x02, 0x0A, 0x33, 0xF7]"
  by (simp add: patch_def pair_dump_def KSTNID_def)

lemma program_dump_run:
  "transcode always_ok zeroed program_dump = Inr (after_frame (init zeroed) program_dump)"
proof -
  have "\<forall>g\<in>set [program_dump]. source_frame g"
    using program_dump_source by simp
  from transcode_frames_Inr [OF this always_ok_all, of zeroed] show ?thesis
    by simp
qed

subsection \<open>C1\<close>

text \<open>
  C1. A single source-format frame is converted with success, and the output file holds
  the frame with the V-Station identifier at offset 5 and every other byte as it was:
  the length is the same and the bytes from offset 13 on, the program data, are the
  input's.
\<close>

theorem C1_frame_effect:
  assumes "source_frame f" and "\<forall>k. wok k"
  shows "failure (transcode wok junk f) = None \<and>
         written (transcode wok junk f) = f[5 := KSTNID] \<and>
         length (written (transcode wok junk f)) = length f \<and>
         written (transcode wok junk f) ! 5 = KSTNID \<and>
         drop OFFSET_PROGRAM (written (transcode wok junk f)) = drop OFFSET_PROGRAM f"
proof -
  have "\<forall>g\<in>set [f]. source_frame g" using assms(1) by simp
  from transcode_frames_Inr [OF this assms(2), where junk = junk]
  have r: "transcode wok junk f = Inr (after_frame (init junk) f)" by simp
  have o: "ofp (after_frame (init junk) f) = f[5 := KSTNID]"
    by (simp add: after_frame_def init_def patch_def)
  from assms(1) obtain x r where f: "f = x # NOVID1 # NOVID2 # NOVID3 # DEVTYP # ASTNID # r"
    unfolding source_frame_def by (auto elim: take5_tlD)
  show ?thesis
    by (simp add: r o failure_def written_def) (simp add: f OFFSET_PROGRAM_def)
qed

theorem C1_frame_effect_witness:
  "source_frame program_dump \<and>
   (\<forall>k. always_ok k) \<and>
   failure (transcode always_ok zeroed program_dump) = None \<and>
   written (transcode always_ok zeroed program_dump) =
     [0xF0, 0x00, 0x20, 0x29, 0x01, 0x41, 0x7F, 0x01, 0x01, 0x00, 0x00, 0x03, 0x07, 0x11, 0x22, 0xF7] \<and>
   drop OFFSET_PROGRAM (written (transcode always_ok zeroed program_dump)) = [0x11, 0x22, 0xF7]"
proof -
  note c = C1_frame_effect [OF program_dump_source always_ok_all, of zeroed]
  from c have "failure (transcode always_ok zeroed program_dump) = None"
    by blast
  moreover from c have "written (transcode always_ok zeroed program_dump) = patch program_dump"
    by (simp add: patch_def)
  moreover from c have "drop OFFSET_PROGRAM (written (transcode always_ok zeroed program_dump)) =
      [0x11, 0x22, 0xF7]"
    by (simp add: program_dump_def OFFSET_PROGRAM_def)
  ultimately show ?thesis
    using program_dump_source always_ok_all unfolding program_dump_patched by blast
qed

subsection \<open>C2\<close>

text \<open>
  C2, as amended. When the input starts with a source-format frame and the conversion
  succeeds, converting the output again fails with \<open>AlreadyTargetFormat\<close> and writes
  nothing, whatever the second run's output file and buffer are.
\<close>

theorem C2_output_rejected:
  assumes "source_frame f" and "failure (transcode wok junk (f @ rest)) = None"
  shows "failure (transcode wok' junk' (written (transcode wok junk (f @ rest)))) =
           Some AlreadyTargetFormat \<and>
         written (transcode wok' junk' (written (transcode wok junk (f @ rest)))) = []"
proof -
  from assms(2) obtain s where s: "transcode wok junk (f @ rest) = Inr s"
    by (auto simp: failure_def split: sum.splits)
  then have "read_loop wok (init junk) (f @ rest) = Inr s"
    by (simp add: transcode_def)
  from first_frame_written [OF ready_init assms(1) this]
  obtain ys where ys: "ofp s = patch f @ ys" by (auto simp: init_def)
  have "transcode wok' junk' (patch f @ ys) =
           Inl (AlreadyTargetFormat,
                (init junk')\<lparr>sysExclMsg := patch f @ drop (length (patch f)) (sysExclMsg (init junk')),
                      counter := int (length (patch f)) - 1,
                      bufAddr := length (patch f) - 1\<rparr>)"
    unfolding transcode_def
    using ready_init patched_frame [OF assms(1)] by (rule frame_fail)
  then show ?thesis
    by (simp add: s ys written_def failure_def init_def)
qed

theorem C2_output_rejected_witness:
  "source_frame program_dump \<and>
   failure (transcode always_ok zeroed program_dump) = None \<and>
   written (transcode always_ok zeroed program_dump) =
     [0xF0, 0x00, 0x20, 0x29, 0x01, 0x41, 0x7F, 0x01, 0x01, 0x00, 0x00, 0x03, 0x07, 0x11, 0x22, 0xF7] \<and>
   failure (transcode always_ok zeroed
     [0xF0, 0x00, 0x20, 0x29, 0x01, 0x41, 0x7F, 0x01, 0x01, 0x00, 0x00, 0x03, 0x07, 0x11, 0x22, 0xF7]) =
     Some AlreadyTargetFormat \<and>
   written (transcode always_ok zeroed
     [0xF0, 0x00, 0x20, 0x29, 0x01, 0x41, 0x7F, 0x01, 0x01, 0x00, 0x00, 0x03, 0x07, 0x11, 0x22, 0xF7]) = []"
proof -
  have h2: "failure (transcode always_ok zeroed (program_dump @ [])) = None"
    by (simp add: program_dump_run failure_def)
  have w: "written (transcode always_ok zeroed (program_dump @ [])) = patch program_dump"
    by (simp add: program_dump_run written_def after_frame_def init_def)
  note c = C2_output_rejected [OF program_dump_source h2, of always_ok zeroed]
  from c have "failure (transcode always_ok zeroed (patch program_dump)) = Some AlreadyTargetFormat"
    and "written (transcode always_ok zeroed (patch program_dump)) = []"
    unfolding w by blast+
  moreover from h2 w have "failure (transcode always_ok zeroed program_dump) = None"
    and "written (transcode always_ok zeroed program_dump) = patch program_dump"
    by simp_all
  ultimately show ?thesis
    using program_dump_source unfolding program_dump_patched by blast
qed

text \<open>
  C2 as stated fails on the empty input: the conversion succeeds, its output is empty,
  and the conversion of that output succeeds as well.
\<close>

theorem C2_empty_counterexample:
  "failure (transcode always_ok zeroed []) = None \<and>
   written (transcode always_ok zeroed []) = [] \<and>
   failure (transcode always_ok zeroed (written (transcode always_ok zeroed []))) \<noteq>
     Some AlreadyTargetFormat"
  by (simp add: transcode_def failure_def written_def init_def)

subsection \<open>C3\<close>

text \<open>
  C3, as amended. When source-format frames are followed by a start marker and bytes
  that hold no end marker (a last frame cut short, within the buffer), the conversion
  returns success and the output file holds the patched frames before it and nothing of
  the cut frame.
\<close>

theorem C3_truncated_dropped:
  assumes "\<forall>g\<in>set fs. source_frame g" and "EOX \<notin> set tail" and "length tail < SIZE_SYSEX_BUF"
    and "\<forall>k. wok k"
  shows "failure (transcode wok junk (concat fs @ SOX # tail)) = None \<and>
         written (transcode wok junk (concat fs @ SOX # tail)) = concat (map patch fs)"
  using assms by (rule truncated_stream)

theorem C3_truncated_dropped_witness:
  "source_frame program_dump \<and>
   EOX \<notin> set [0x00, 0x20, 0x29] \<and>
   length [0x00, 0x20, 0x29 :: u8] < SIZE_SYSEX_BUF \<and>
   (\<forall>k. always_ok k) \<and>
   failure (transcode always_ok zeroed (program_dump @ [0xF0, 0x00, 0x20, 0x29])) = None \<and>
   written (transcode always_ok zeroed (program_dump @ [0xF0, 0x00, 0x20, 0x29])) =
     [0xF0, 0x00, 0x20, 0x29, 0x01, 0x41, 0x7F, 0x01, 0x01, 0x00, 0x00, 0x03, 0x07, 0x11, 0x22, 0xF7]"
proof -
  have h1: "\<forall>g\<in>set [program_dump]. source_frame g"
    using program_dump_source by simp
  have h2: "EOX \<notin> set [0x00, 0x20, 0x29]"
    by (simp add: EOX_def)
  have h3: "length [0x00, 0x20, 0x29 :: u8] < SIZE_SYSEX_BUF"
    by (simp add: size_sysex_buf)
  from C3_truncated_dropped [OF h1 h2 h3 always_ok_all, of zeroed]
  have "failure (transcode always_ok zeroed (program_dump @ [0xF0, 0x00, 0x20, 0x29])) = None"
    and "written (transcode always_ok zeroed (program_dump @ [0xF0, 0x00, 0x20, 0x29])) =
      patch program_dump"
    by (simp_all add: SOX_def)
  then show ?thesis
    using program_dump_source h2 h3 always_ok_all unfolding program_dump_patched by blast
qed

text \<open>
  C3 as stated fails: on a start marker followed by header bytes and no end marker, the
  conversion returns success, with an empty output file.
\<close>

theorem C3_truncated_counterexample:
  "failure (transcode always_ok zeroed [0xF0, 0x00, 0x20, 0x29, 0x01, 0x40, 0x7F]) = None \<and>
   written (transcode always_ok zeroed [0xF0, 0x00, 0x20, 0x29, 0x01, 0x40, 0x7F]) = []"
proof -
  have h1: "\<forall>g\<in>set []. source_frame g" by simp
  have h2: "EOX \<notin> set [0x00, 0x20, 0x29, 0x01, 0x40, 0x7F]"
    by (simp add: EOX_def)
  have h3: "length [0x00, 0x20, 0x29, 0x01, 0x40, 0x7F :: u8] < SIZE_SYSEX_BUF"
    by (simp add: size_sysex_buf)
  from truncated_stream [OF h1 h2 h3 always_ok_all, of zeroed] show ?thesis
    by (simp add: SOX_def)
qed

subsection \<open>C4\<close>

text \<open>
  C4. A frame within the buffer whose bytes at offsets 1 to 3 are not 00 20 29 makes the
  conversion fail with \<open>UnknownVendorId\<close>, at an offset from 1 to 3 whose byte is not
  the expected one and with the byte found there, and the output file holds no byte.
  What follows the frame in the input is not read, and the outcome of the writes plays
  no part.
\<close>

theorem C4_vendor_mismatch:
  assumes "is_frame f" and "length f \<le> SIZE_SYSEX_BUF"
    and "take 3 (tl f) \<noteq> [NOVID1, NOVID2, NOVID3]"
  shows "(failure (transcode wok junk (f @ rest)) = Some (UnknownVendorId 1 (f ! 1))
            \<and> 1 < length f \<and> f ! 1 \<noteq> NOVID1
          \<or> failure (transcode wok junk (f @ rest)) = Some (UnknownVendorId 2 (f ! 2))
            \<and> 2 < length f \<and> f ! 2 \<noteq> NOVID2
          \<or> failure (transcode wok junk (f @ rest)) = Some (UnknownVendorId 3 (f ! 3))
            \<and> 3 < length f \<and> f ! 3 \<noteq> NOVID3)
         \<and> written (transcode wok junk (f @ rest)) = []"
proof -
  let ?v = "verify (f @ drop (length f) (sysExclMsg (init junk)))"
  have "header_case f ?v" using assms(1) by (rule verify_frame)
  from vendor_case [OF this assms(3)] obtain e where e: "?v = Some e"
    and c: "e = UnknownVendorId 1 (f ! 1) \<and> 1 < length f \<and> f ! 1 \<noteq> NOVID1
       \<or> e = UnknownVendorId 2 (f ! 2) \<and> 2 < length f \<and> f ! 2 \<noteq> NOVID2
       \<or> e = UnknownVendorId 3 (f ! 3) \<and> 3 < length f \<and> f ! 3 \<noteq> NOVID3"
    by auto
  have "transcode wok junk (f @ rest) =
           Inl (e, (init junk)\<lparr>sysExclMsg := f @ drop (length f) (sysExclMsg (init junk)),
                      counter := int (length f) - 1,
                      bufAddr := length f - 1\<rparr>)"
    unfolding transcode_def using ready_init assms(1,2) e by (rule frame_fail)
  with c show ?thesis
    by (simp add: failure_def written_def init_def)
qed

theorem C4_vendor_mismatch_witness:
  "is_frame [0xF0, 0x00, 0x21, 0x29, 0x01, 0x40, 0x00, 0xF7] \<and>
   length [0xF0, 0x00, 0x21, 0x29, 0x01, 0x40, 0x00, 0xF7 :: u8] \<le> SIZE_SYSEX_BUF \<and>
   take 3 (tl [0xF0, 0x00, 0x21, 0x29, 0x01, 0x40, 0x00, 0xF7]) \<noteq> [NOVID1, NOVID2, NOVID3] \<and>
   failure (transcode always_ok zeroed [0xF0, 0x00, 0x21, 0x29, 0x01, 0x40, 0x00, 0xF7]) =
     Some (UnknownVendorId 2 0x21) \<and>
   written (transcode always_ok zeroed [0xF0, 0x00, 0x21, 0x29, 0x01, 0x40, 0x00, 0xF7]) = []"
proof -
  let ?f = "[0xF0, 0x00, 0x21, 0x29, 0x01, 0x40, 0x00, 0xF7] :: u8 list"
  have h1: "is_frame ?f"
    by (simp add: consts_defs)
  have h2: "length ?f \<le> SIZE_SYSEX_BUF"
    by (simp add: size_sysex_buf)
  have h3: "take 3 (tl ?f) \<noteq> [NOVID1, NOVID2, NOVID3]"
    by (simp add: consts_defs)
  from C4_vendor_mismatch [OF h1 h2 h3, of always_ok zeroed "[]"]
  have "failure (transcode always_ok zeroed ?f) = Some (UnknownVendorId 2 0x21) \<and>
      written (transcode always_ok zeroed ?f) = []"
    by (simp add: consts_defs)
  with h1 h2 h3 show ?thesis
    by blast
qed

subsection \<open>C5\<close>

text \<open>
  C5. A stream of source-format frames, one after the other, is converted with success
  and the output file holds the patched frames in the same order. The run passes, for
  every \<open>n\<close>, through the state reached on the first \<open>n\<close> frames alone, in which the
  output file holds exactly the first \<open>n\<close> patched frames; the remaining frames are
  read from that state on.
\<close>

theorem C5_frames_in_order:
  assumes "\<forall>g\<in>set fs. source_frame g" and "\<forall>k. wok k"
  shows "failure (transcode wok junk (concat fs)) = None \<and>
         written (transcode wok junk (concat fs)) = concat (map patch fs) \<and>
         (\<forall>n\<le>length fs. \<exists>s.
            transcode wok junk (concat (take n fs)) = Inr s \<and>
            ofp s = concat (map patch (take n fs)) \<and>
            transcode wok junk (concat fs) = read_loop wok s (concat (drop n fs)))"
proof -
  have all: "transcode wok junk (concat fs) = Inr (foldl after_frame (init junk) fs)"
    using assms by (rule transcode_frames_Inr)
  have o: "ofp (foldl after_frame (init junk) gs) = concat (map patch gs)" for gs
    by (simp add: ofp_after_frames init_def)
  have "\<exists>s. transcode wok junk (concat (take n fs)) = Inr s \<and>
            ofp s = concat (map patch (take n fs)) \<and>
            transcode wok junk (concat fs) = read_loop wok s (concat (drop n fs))" for n
  proof -
    have t: "\<forall>g\<in>set (take n fs). source_frame g"
      using assms(1) by (meson in_set_takeD)
    have "transcode wok junk (concat (take n fs)) = Inr (foldl after_frame (init junk) (take n fs))"
      using t assms(2) by (rule transcode_frames_Inr)
    moreover have "transcode wok junk (concat (take n fs) @ concat (drop n fs)) =
        read_loop wok (foldl after_frame (init junk) (take n fs)) (concat (drop n fs))"
      using t assms(2) by (rule transcode_frames)
    moreover have "concat (take n fs) @ concat (drop n fs) = concat fs"
      by (metis append_take_drop_id concat_append)
    ultimately show ?thesis
      using o [of "take n fs"] by auto
  qed
  then show ?thesis
    by (simp add: all o failure_def written_def)
qed

theorem C5_frames_in_order_witness:
  "source_frame program_dump \<and>
   source_frame pair_dump \<and>
   (\<forall>k. always_ok k) \<and>
   failure (transcode always_ok zeroed (program_dump @ pair_dump)) = None \<and>
   written (transcode always_ok zeroed (program_dump @ pair_dump)) =
     [0xF0, 0x00, 0x20, 0x29, 0x01, 0x41, 0x7F, 0x01, 0x01, 0x00, 0x00, 0x03, 0x07, 0x11, 0x22, 0xF7] @
     [0xF0, 0x00, 0x20, 0x29, 0x01, 0x41, 0x7F, 0x02, 0x00, 0x00, 0x00, 0x02, 0x0A, 0x33, 0xF7] \<and>
   (\<exists>s. transcode always_ok zeroed program_dump = Inr s \<and>
        ofp s =
          [0xF0, 0x00, 0x20, 0x29, 0x01, 0x41, 0x7F, 0x01, 0x01, 0x00, 0x00, 0x03, 0x07, 0x11, 0x22, 0xF7] \<and>
        transcode always_ok zeroed (program_dump @ pair_dump) = read_loop always_ok s pair_dump)"
proof -
  let ?fs = "[program_dump, pair_dump]"
  have h1: "\<forall>g\<in>set ?fs. source_frame g"
    using program_dump_source pair_dump_source by simp
  have t1: "concat (take 1 ?fs) = program_dump"
    by simp
  have t2: "concat (drop 1 ?fs) = pair_dump"
    by simp
  have t3: "concat ?fs = program_dump @ pair_dump"
    by simp
  have t4: "concat (map patch ?fs) = patch program_dump @ patch pair_dump"
    by simp
  have t5: "concat (map patch (take 1 ?fs)) = patch program_dump"
    by simp
  have n1: "(1 :: nat) \<le> length ?fs"
    by simp
  note c = C5_frames_in_order [OF h1 always_ok_all, of zeroed]
  from c n1 obtain s where "transcode always_ok zeroed (concat (take 1 ?fs)) = Inr s"
    and "ofp s = concat (map patch (take 1 ?fs))"
    and "transcode always_ok zeroed (concat ?fs) = read_loop always_ok s (concat (drop 1 ?fs))"
    by blast
  then have "\<exists>s. transcode always_ok zeroed program_dump = Inr s \<and>
        ofp s = patch program_dump \<and>
        transcode always_ok zeroed (program_dump @ pair_dump) = read_loop always_ok s pair_dump"
    unfolding t1 t2 t3 t5 by blast
  moreover from c have "failure (transcode always_ok zeroed (program_dump @ pair_dump)) = None"
    and "written (transcode always_ok zeroed (program_dump @ pair_dump)) =
      patch program_dump @ patch pair_dump"
    unfolding t3 t4 by blast+
  ultimately show ?thesis
    using program_dump_source pair_dump_source always_ok_all
    unfolding program_dump_patched pair_dump_patched by blast
qed

subsection \<open>C6\<close>

text \<open>
  C6, as amended. For a source-format frame that has the offsets up to 12, the text
  printed for it is \<open>info\<close> of the frame, appended to what the frames before it
  printed. It depends on the bytes at offsets 7, 8, 11 and 12 only, and whatever they
  are it is empty or a line that starts with the tag "[INFO] ". A program dump with
  mode 1, bank 3 and program 7 prints the line "[INFO] PROGRAM BANK=3, PROGRAM NUMBER=7";
  a program pair dump with program 10, in mode 0 or 1, prints "[INFO] PROGRAM BANK=b,
  PROGRAM NUMBER=10 and 11" with its bank \<open>b\<close>; a program pair dump in mode 0 prints
  its bank as well.
\<close>

theorem C6_report:
  assumes "\<forall>g\<in>set fs. source_frame g" and "source_frame f" and "12 < length f"
    and "\<forall>k. wok k"
  shows "printed (transcode wok junk (concat fs @ f)) =
           printed (transcode wok junk (concat fs)) @ info f \<and>
         (\<forall>g. g ! 7 = f ! 7 \<and> g ! 8 = f ! 8 \<and> g ! 11 = f ! 11 \<and> g ! 12 = f ! 12 \<longrightarrow>
            info g = info f) \<and>
         (\<forall>g. info g = [] \<or> take 7 (info g) = ''[INFO] '') \<and>
         (f ! 7 = MSGTYP_PRG \<and> f ! 8 = 1 \<and> f ! 11 = 3 \<and> f ! 12 = 7 \<longrightarrow>
            info f = ''[INFO] PROGRAM BANK=3, PROGRAM NUMBER=7'' @ newline) \<and>
         (f ! 7 = MSGTYP_PAI \<and> (f ! 8 = 0 \<or> f ! 8 = 1) \<and> f ! 12 = 10 \<longrightarrow>
            info f = ''[INFO] PROGRAM BANK='' @ dec (unat (f ! 11)) @
              '', PROGRAM NUMBER=10 and 11'' @ newline) \<and>
         (f ! 7 = MSGTYP_PAI \<and> f ! 8 = 0 \<longrightarrow>
            info f = ''[INFO] PROGRAM BANK='' @ dec (unat (f ! 11)) @ '', PROGRAM NUMBER='' @
              dec (unat (f ! 12)) @ '' and '' @ dec (unat (f ! 12) + 1) @ newline)"
  using printed_frames_then_frame [OF assms] info_cong [of _ f] info_program [of f]
    info_pair [of f] info_pair_current [of f] info_tag
  by blast

theorem C6_report_witness:
  "source_frame program_dump \<and> 12 < length program_dump \<and>
   source_frame pair_dump \<and> 12 < length pair_dump \<and>
   (\<forall>k. always_ok k) \<and>
   program_dump ! 7 = MSGTYP_PRG \<and> program_dump ! 8 = 1 \<and>
   program_dump ! 11 = 3 \<and> program_dump ! 12 = 7 \<and>
   printed (transcode always_ok zeroed program_dump) =
     ''[INFO] PROGRAM BANK=3, PROGRAM NUMBER=7'' @ newline \<and>
   pair_dump ! 7 = MSGTYP_PAI \<and> pair_dump ! 8 = 0 \<and> pair_dump ! 11 = 2 \<and> pair_dump ! 12 = 10 \<and>
   printed (transcode always_ok zeroed (program_dump @ pair_dump)) =
     ''[INFO] PROGRAM BANK=3, PROGRAM NUMBER=7'' @ newline @
     ''[INFO] PROGRAM BANK=2, PROGRAM NUMBER=10 and 11'' @ newline \<and>
   take 7 (info pair_dump) = ''[INFO] ''"
proof -
  have h0: "\<forall>g\<in>set []. source_frame g"
    by simp
  have h1: "\<forall>g\<in>set [program_dump]. source_frame g"
    using program_dump_source by simp
  have la: "12 < length program_dump"
    by (simp add: program_dump_def)
  have lb: "12 < length pair_dump"
    by (simp add: pair_dump_def)
  have fa: "program_dump ! 7 = MSGTYP_PRG" "program_dump ! 8 = 1"
    "program_dump ! 11 = 3" "program_dump ! 12 = 7"
    by (simp_all add: program_dump_def MSGTYP_PRG_def)
  have fb: "pair_dump ! 7 = MSGTYP_PAI" "pair_dump ! 8 = 0" "pair_dump ! 11 = 2" "pair_dump ! 12 = 10"
    by (simp_all add: pair_dump_def MSGTYP_PAI_def)
  note ca = C6_report [OF h0 program_dump_source la always_ok_all, of zeroed]
  note cb = C6_report [OF h1 pair_dump_source lb always_ok_all, of zeroed]
  from ca have "printed (transcode always_ok zeroed (concat [] @ program_dump)) =
      printed (transcode always_ok zeroed (concat [])) @ info program_dump"
    by blast
  moreover from ca fa have "info program_dump = ''[INFO] PROGRAM BANK=3, PROGRAM NUMBER=7'' @ newline"
    by blast
  ultimately have pa: "printed (transcode always_ok zeroed program_dump) =
      ''[INFO] PROGRAM BANK=3, PROGRAM NUMBER=7'' @ newline"
    by (simp add: printed_empty)
  from cb have "printed (transcode always_ok zeroed (concat [program_dump] @ pair_dump)) =
      printed (transcode always_ok zeroed (concat [program_dump])) @ info pair_dump"
    by blast
  moreover from cb fb have "info pair_dump =
      ''[INFO] PROGRAM BANK='' @ dec (unat (pair_dump ! 11)) @
        '', PROGRAM NUMBER=10 and 11'' @ newline"
    by blast
  ultimately have pb: "printed (transcode always_ok zeroed (program_dump @ pair_dump)) =
     ''[INFO] PROGRAM BANK=3, PROGRAM NUMBER=7'' @ newline @
     ''[INFO] PROGRAM BANK=2, PROGRAM NUMBER=10 and 11'' @ newline"
    using pa fb(3) by (simp add: dec.simps [of 2])
  from cb have "info pair_dump = [] \<or> take 7 (info pair_dump) = ''[INFO] ''"
    by blast
  moreover from cb fb have "info pair_dump \<noteq> []"
    by auto
  ultimately have tg: "take 7 (info pair_dump) = ''[INFO] ''"
    by blast
  from pa pb tg la lb fa fb show ?thesis
    using program_dump_source pair_dump_source always_ok_all by blast
qed

text \<open>
  C6 as stated fails: the line printed for a program dump with mode 1, bank 3 and
  program 7 starts with the tag "[INFO] ", so it is not the text "PROGRAM BANK=3,
  PROGRAM NUMBER=7", with or without the end of line.
\<close>

theorem C6_tag_counterexample:
  "printed (transcode always_ok zeroed
     [0xF0, 0x00, 0x20, 0x29, 0x01, 0x40, 0x7F, 0x01, 0x01, 0x00, 0x00, 0x03, 0x07, 0x11, 0x22, 0xF7]) =
     ''[INFO] PROGRAM BANK=3, PROGRAM NUMBER=7'' @ newline \<and>
   printed (transcode always_ok zeroed
     [0xF0, 0x00, 0x20, 0x29, 0x01, 0x40, 0x7F, 0x01, 0x01, 0x00, 0x00, 0x03, 0x07, 0x11, 0x22, 0xF7]) \<noteq>
     ''PROGRAM BANK=3, PROGRAM NUMBER=7'' \<and>
   printed (transcode always_ok zeroed
     [0xF0, 0x00, 0x20, 0x29, 0x01, 0x40, 0x7F, 0x01, 0x01, 0x00, 0x00, 0x03, 0x07, 0x11, 0x22, 0xF7]) \<noteq>
     ''PROGRAM BANK=3, PROGRAM NUMBER=7'' @ newline"
proof -
  have h0: "\<forall>g\<in>set []. source_frame g"
    by simp
  have la: "12 < length program_dump"
    by (simp add: program_dump_def)
  have "printed (transcode always_ok zeroed (concat [] @ program_dump)) =
      printed (transcode always_ok zeroed (concat [])) @ info program_dump"
    using h0 program_dump_source la always_ok_all by (rule printed_frames_then_frame)
  moreover have "info program_dump = ''[INFO] PROGRAM BANK=3, PROGRAM NUMBER=7'' @ newline"
    by (rule info_program) (simp_all add: program_dump_def MSGTYP_PRG_def)
  ultimately have "printed (transcode always_ok zeroed program_dump) =
      ''[INFO] PROGRAM BANK=3, PROGRAM NUMBER=7'' @ newline"
    by (simp add: printed_empty)
  then show ?thesis
    unfolding program_dump_def by (simp add: newline_def)
qed

subsection \<open>C7\<close>

text \<open>
  C7. An input whose first byte is not the start marker makes the conversion fail with
  \<open>NotASysexFile\<close>, and the output file holds no byte.
\<close>

theorem C7_first_byte:
  assumes "b \<noteq> SOX"
  shows "failure (transcode wok junk (b # bs)) = Some NotASysexFile \<and>
         written (transcode wok junk (b # bs)) = []"
  using assms
  by (simp add: transcode_def loop_body_def init_def Let_def failure_def written_def
      size_sysex_buf)

theorem C7_first_byte_witness:
  "(0x4D :: u8) \<noteq> SOX \<and>
   failure (transcode always_ok zeroed [0x4D, 0x54, 0x68, 0x64]) = Some NotASysexFile \<and>
   written (transcode always_ok zeroed [0x4D, 0x54, 0x68, 0x64]) = []"
proof -
  have h: "(0x4D :: u8) \<noteq> SOX"
    by (simp add: SOX_def)
  from C7_first_byte [OF h, of always_ok zeroed "[0x54, 0x68, 0x64]"] h show ?thesis
    by blast
qed

subsection \<open>C8\<close>




subsection \<open>C9\<close>

text \<open>
  C9. On the empty input the conversion returns success and the output file holds no
  byte; nothing is printed either.
\<close>

theorem C9_empty_input:
  "failure (transcode wok junk []) = None \<and>
   written (transcode wok junk []) = [] \<and>
   printed (transcode wok junk []) = []"
  by (simp add: transcode_def init_def failure_def written_def printed_def)

subsection \<open>C10\<close>

text \<open>
  C10, as amended. Source-format frames, then stray bytes that hold no marker, then one
  more frame, all within the buffer: when there are one to three stray bytes, or more of
  which the second to fourth are not 00 20 29, the conversion fails with
  \<open>UnknownVendorId\<close> at the end marker of that frame. The stray bytes lie in the buffer
  from offset 0 on, and the failing offset holds a stray byte or the start marker they
  shifted. The output file holds the patched frames before the stray bytes and nothing
  else.
\<close>

theorem C10_stray_bytes:
  assumes "fs \<noteq> []" and "\<forall>g\<in>set fs. source_frame g"
    and "stray \<noteq> []" and "SOX \<notin> set stray" and "EOX \<notin> set stray"
    and "is_frame f" and "length stray + length f \<le> SIZE_SYSEX_BUF"
    and "length stray \<le> 3 \<or> take 3 (tl stray) \<noteq> [NOVID1, NOVID2, NOVID3]"
    and "\<forall>k. wok k"
  shows "\<exists>k. (k = 1 \<or> k = 2 \<or> k = 3) \<and> k \<le> length stray \<and>
           failure (transcode wok junk (concat fs @ stray @ f @ rest)) =
             Some (UnknownVendorId k ((stray @ f) ! k)) \<and>
           written (transcode wok junk (concat fs @ stray @ f @ rest)) = concat (map patch fs)"
proof -
  let ?s = "foldl after_frame (init junk) fs"
  have rd: "ready ?s"
    using ready_init assms(2) by (rule ready_after_frames)
  have c: "0 \<le> counter ?s"
    using assms(1,2) by (intro counter_after_frames) auto
  have o: "ofp ?s = concat (map patch fs)"
    by (simp add: ofp_after_frames init_def)
  have t: "transcode wok junk (concat fs @ stray @ f @ rest) = read_loop wok ?s (stray @ f @ rest)"
    using assms(2,9) by (rule transcode_frames)
  from stray_then_frame [OF rd c assms(3,4,5,6,7,8), of wok rest] show ?thesis
    unfolding t o .
qed

theorem C10_stray_bytes_witness:
  "[program_dump] \<noteq> [] \<and>
   source_frame program_dump \<and>
   [0x55 :: u8] \<noteq> [] \<and> SOX \<notin> set [0x55] \<and> EOX \<notin> set [0x55] \<and>
   is_frame pair_dump \<and>
   length [0x55 :: u8] + length pair_dump \<le> SIZE_SYSEX_BUF \<and>
   length [0x55 :: u8] \<le> 3 \<and>
   (\<forall>k. always_ok k) \<and>
   failure (transcode always_ok zeroed (program_dump @ [0x55] @ pair_dump)) =
     Some (UnknownVendorId 1 0xF0) \<and>
   written (transcode always_ok zeroed (program_dump @ [0x55] @ pair_dump)) =
     [0xF0, 0x00, 0x20, 0x29, 0x01, 0x41, 0x7F, 0x01, 0x01, 0x00, 0x00, 0x03, 0x07, 0x11, 0x22, 0xF7]"
proof -
  have h1: "[program_dump] \<noteq> []"
    by simp
  have h2: "\<forall>g\<in>set [program_dump]. source_frame g"
    using program_dump_source by simp
  have h3: "[0x55 :: u8] \<noteq> []" and h4: "SOX \<notin> set [0x55]" and h5: "EOX \<notin> set [0x55]"
    by (simp_all add: consts_defs)
  have h6: "is_frame pair_dump"
    using pair_dump_source by (simp add: source_frame_def)
  have h7: "length [0x55 :: u8] + length pair_dump \<le> SIZE_SYSEX_BUF"
    by (simp add: size_sysex_buf pair_dump_def)
  have l: "length [0x55 :: u8] \<le> 3"
    by simp
  then have h8: "length [0x55 :: u8] \<le> 3 \<or> take 3 (tl [0x55 :: u8]) \<noteq> [NOVID1, NOVID2, NOVID3]"
    by blast
  from C10_stray_bytes [OF h1 h2 h3 h4 h5 h6 h7 h8 always_ok_all, of zeroed "[]"]
  obtain k where "k = 1 \<or> k = 2 \<or> k = 3" and "k \<le> length [0x55 :: u8]"
    and "failure (transcode always_ok zeroed (concat [program_dump] @ [0x55] @ pair_dump @ [])) =
      Some (UnknownVendorId k (([0x55] @ pair_dump) ! k))"
    and "written (transcode always_ok zeroed (concat [program_dump] @ [0x55] @ pair_dump @ [])) =
      concat (map patch [program_dump])"
    by blast
  then have "failure (transcode always_ok zeroed (program_dump @ [0x55] @ pair_dump)) =
      Some (UnknownVendorId 1 0xF0)"
    and "written (transcode always_ok zeroed (program_dump @ [0x55] @ pair_dump)) =
      patch program_dump"
    by (auto simp: pair_dump_def)
  with h1 h3 h4 h5 h6 h7 l show ?thesis
    using program_dump_source always_ok_all unfolding program_dump_patched by blast
qed

text \<open>
  C10 as stated fails: after a source-format frame, the six stray bytes 55 00 20 29 01 40
  and a second source-format frame, the conversion returns success. At the end marker of
  the second frame the header checks read the stray bytes, which pass, and the sixteen
  bytes written for it are the stray bytes, patched at offset 5, and the first ten bytes
  of the second frame.
\<close>

theorem C10_stray_counterexample:
  "failure (transcode always_ok zeroed
     ([0xF0, 0x00, 0x20, 0x29, 0x01, 0x40, 0x7F, 0x01, 0x01, 0x00, 0x00, 0x03, 0x07, 0x11, 0x22, 0xF7] @
      [0x55, 0x00, 0x20, 0x29, 0x01, 0x40] @
      [0xF0, 0x00, 0x20, 0x29, 0x01, 0x40, 0x7F, 0x01, 0x01, 0x00, 0x00, 0x03, 0x07, 0x11, 0x22, 0xF7])) =
     None \<and>
   written (transcode always_ok zeroed
     ([0xF0, 0x00, 0x20, 0x29, 0x01, 0x40, 0x7F, 0x01, 0x01, 0x00, 0x00, 0x03, 0x07, 0x11, 0x22, 0xF7] @
      [0x55, 0x00, 0x20, 0x29, 0x01, 0x40] @
      [0xF0, 0x00, 0x20, 0x29, 0x01, 0x40, 0x7F, 0x01, 0x01, 0x00, 0x00, 0x03, 0x07, 0x11, 0x22, 0xF7])) =
     [0xF0, 0x00, 0x20, 0x29, 0x01, 0x41, 0x7F, 0x01, 0x01, 0x00, 0x00, 0x03, 0x07, 0x11, 0x22, 0xF7] @
     [0x55, 0x00, 0x20, 0x29, 0x01, 0x41] @
     [0xF0, 0x00, 0x20, 0x29, 0x01, 0x40, 0x7F, 0x01, 0x01, 0x00]"
  by code_simp

end
